theory Spec2Isabelle
  imports Complex_Main "HOL-Library.AList" "HOL-Library.Option_ord"
begin

section \<open>Text primitives of the Python runtime (ASCII text)\<close>

text \<open>
  The services work on Python \<open>str\<close> values.  They are modelled as HOL strings holding
  ASCII text: \<open>str.lower\<close>, \<open>str.split\<close>, \<open>str.strip\<close> and the regular-expression class
  \<open>\w\<close> are given for ASCII characters, which is where their Python meaning is fixed by the
  language reference independently of the Unicode tables.
\<close>

definition ascii_upper :: string where
  "ascii_upper = ''ABCDEFGHIJKLMNOPQRSTUVWXYZ''"

definition ascii_lower :: string where
  "ascii_lower = ''abcdefghijklmnopqrstuvwxyz''"

definition ascii_digits :: string where
  "ascii_digits = ''0123456789''"

definition lower_char :: "char \<Rightarrow> char" where
  "lower_char c = (case map_of (zip ascii_upper ascii_lower) c of None \<Rightarrow> c | Some d \<Rightarrow> d)"

text \<open>\<open>s.lower()\<close>\<close>

definition py_lower :: "string \<Rightarrow> string" where
  "py_lower s = map lower_char s"

text \<open>The characters \<open>str.split()\<close> and \<open>str.strip()\<close> treat as whitespace:
  tab, line feed, vertical tab, form feed, carriage return, the four separators
  \<open>0x1C\<close> to \<open>0x1F\<close>, and the space.\<close>

definition py_whitespace :: string where
  "py_whitespace = [CHR 0x09, CHR 0x0A, CHR 0x0B, CHR 0x0C, CHR 0x0D,
                    CHR 0x1C, CHR 0x1D, CHR 0x1E, CHR 0x1F, CHR 0x20]"

definition is_space :: "char \<Rightarrow> bool" where
  "is_space c = (c \<in> set py_whitespace)"

text \<open>\<open>s.strip()\<close>\<close>

definition py_strip :: "string \<Rightarrow> string" where
  "py_strip s = rev (dropWhile is_space (rev (dropWhile is_space s)))"

text \<open>\<open>s.split()\<close>: the maximal runs of non-whitespace characters, in order.  The first
  argument is the run being read.\<close>

fun split_from :: "string \<Rightarrow> string \<Rightarrow> string list" where
  "split_from cur [] = (if cur = [] then [] else [cur])"
| "split_from cur (c # cs) =
     (if is_space c then (if cur = [] then split_from [] cs else cur # split_from [] cs)
      else split_from (cur @ [c]) cs)"

definition py_split :: "string \<Rightarrow> string list" where
  "py_split s = split_from [] s"

text \<open>The class \<open>\w\<close>: letters, digits and the underscore.\<close>

definition is_word_char :: "char \<Rightarrow> bool" where
  "is_word_char c = (c \<in> set (ascii_lower @ ascii_upper @ ascii_digits @ ''_''))"

text \<open>\<open>re.findall(r"\b\w+\b", s)\<close>: the maximal runs of word characters, in order.\<close>

fun words_from :: "string \<Rightarrow> string \<Rightarrow> string list" where
  "words_from cur [] = (if cur = [] then [] else [cur])"
| "words_from cur (c # cs) =
     (if is_word_char c then words_from (cur @ [c]) cs
      else (if cur = [] then words_from [] cs else cur # words_from [] cs))"

definition findall_words :: "string \<Rightarrow> string list" where
  "findall_words s = words_from [] s"


section \<open>Negative filtering in the vector search (\<open>weaviate_service.py\<close>)\<close>

text \<open>The properties of a stored course that \<open>_should_exclude_course\<close> reads.  \<open>topics\<close>
  is \<open>None\<close> when the stored value is not a list (\<open>isinstance(topics, list)\<close> fails).\<close>

record course_props =
  props_title :: string
  props_topics :: "string list option"

text \<open>The loop over the keywords of \<open>_should_exclude_course\<close>.\<close>

fun exclude_loop :: "string set \<Rightarrow> string set \<Rightarrow> string list \<Rightarrow> bool" where
  "exclude_loop topic_tokens title_tokens [] = False"
| "exclude_loop topic_tokens title_tokens (keyword # rest) =
     (let kw = py_strip (py_lower keyword) in
      if length kw < 3 then exclude_loop topic_tokens title_tokens rest
      else if kw \<in> topic_tokens \<or> kw \<in> title_tokens then True
      else exclude_loop topic_tokens title_tokens rest)"

definition title_tokens_of :: "course_props \<Rightarrow> string set" where
  "title_tokens_of course = set (findall_words (py_lower (props_title course)))"

definition topic_tokens_of :: "course_props \<Rightarrow> string set" where
  "topic_tokens_of course =
     (case props_topics course of Some ts \<Rightarrow> set (map py_lower ts) | None \<Rightarrow> {})"

definition should_exclude_course :: "course_props \<Rightarrow> string list \<Rightarrow> bool" where
  "should_exclude_course course negative_keywords =
     (if negative_keywords = [] then False
      else exclude_loop (topic_tokens_of course) (title_tokens_of course) negative_keywords)"

definition demo_props :: course_props where
  "demo_props = \<lparr>props_title = ''Intro to SQL'', props_topics = Some [''Databases'']\<rparr>"


section \<open>Candidates and the user context (\<open>recommendation_engine.py\<close>)\<close>

datatype provenance = Vector | Content

text \<open>A candidate is the dictionary built by the two retrieval stages.  A column of the
  catalog that may hold \<open>NULL\<close> and is read by the scorer is an option (\<open>None\<close> is Python's
  \<open>None\<close>); \<open>vector_similarity\<close> and \<open>source\<close> are \<open>None\<close> when the key is absent from the
  dictionary.\<close>

record candidate =
  course_id :: string
  title :: string
  description :: string
  topics :: "string list"
  difficulty :: "string option"
  duration :: string
  format :: "string option"
  rating :: "real option"
  vector_similarity :: "real option"
  source :: "provenance option"

record preferences =
  pref_topics :: "string list"
  pref_difficulty :: "string option"
  pref_learning_style :: "string option"

record feedback =
  fb_course_id :: "string option"
  fb_rating :: int

record user_context =
  ctx_preferences :: preferences
  recent_feedback :: "feedback list"

datatype error = TypeError | ValidationError | DatabaseError | ValueError

text \<open>Python's truth value of an optional string: \<open>None\<close> and the empty string are false.\<close>

definition truthy :: "string option \<Rightarrow> bool" where
  "truthy s = (case s of None \<Rightarrow> False | Some t \<Rightarrow> t \<noteq> [])"

text \<open>\<open>needle in haystack\<close> on strings.\<close>

fun contains :: "string \<Rightarrow> string \<Rightarrow> bool" where
  "contains [] needle = (needle = [])"
| "contains (c # cs) needle = (take (length needle) (c # cs) = needle \<or> contains cs needle)"


subsection \<open>Sub-scores\<close>

text \<open>\<open>_calculate_topic_score\<close>.  The first loop adds 1 for every course topic whose
  lowercase form is among the lowercased preferred topics; the second adds
  \<open>min(count / 3.0, 0.8)\<close> for every course topic that the \<open>Counter\<close> of the lowercased
  positive topics holds.\<close>

definition preferred_hit :: "string list \<Rightarrow> string \<Rightarrow> real" where
  "preferred_hit preferred_topics topic =
     (if py_lower topic \<in> set (map py_lower preferred_topics) then 1 else 0)"

definition positive_counter :: "string list \<Rightarrow> string \<Rightarrow> nat" where
  "positive_counter positive_topics t = count_list (map py_lower positive_topics) t"

definition frequency_weight :: "string list \<Rightarrow> string \<Rightarrow> real" where
  "frequency_weight positive_topics topic =
     (let topic_lower = py_lower topic in
      if 0 < positive_counter positive_topics topic_lower
      then min (real (positive_counter positive_topics topic_lower) / 3) 0.8
      else 0)"

definition calculate_topic_score :: "string list \<Rightarrow> string list \<Rightarrow> string list \<Rightarrow> real" where
  "calculate_topic_score course_topics preferred_topics positive_topics =
     (if course_topics = [] then 0
      else
        let score = sum_list (map (preferred_hit preferred_topics) course_topics);
            score = score + sum_list (map (frequency_weight positive_topics) course_topics)
        in min (score / real (max (length course_topics) 1)) 1)"

text \<open>\<open>list.index\<close>, raising \<open>ValueError\<close> when the value is missing.\<close>

fun py_index :: "'a list \<Rightarrow> 'a \<Rightarrow> error + nat" where
  "py_index [] x = Inl ValueError"
| "py_index (y # ys) x =
     (if y = x then Inr 0
      else case py_index ys x of Inl e \<Rightarrow> Inl e | Inr i \<Rightarrow> Inr (Suc i))"

definition difficulty_levels :: "string list" where
  "difficulty_levels = [''beginner'', ''intermediate'', ''advanced'']"

text \<open>\<open>_calculate_difficulty_score\<close>\<close>

definition calculate_difficulty_score :: "string option \<Rightarrow> string option \<Rightarrow> real" where
  "calculate_difficulty_score course_difficulty preferred_difficulty =
     (if \<not> truthy preferred_difficulty \<or> \<not> truthy course_difficulty then 0.5
      else if py_lower (the course_difficulty) = py_lower (the preferred_difficulty) then 1
      else
        case py_index difficulty_levels (py_lower (the course_difficulty)) of
          Inl e \<Rightarrow> 0.5
        | Inr course_idx \<Rightarrow>
           (case py_index difficulty_levels (py_lower (the preferred_difficulty)) of
              Inl e \<Rightarrow> 0.5
            | Inr preferred_idx \<Rightarrow>
               (let distance = \<bar>int course_idx - int preferred_idx\<bar> in
                if distance = 0 then 1 else if distance = 1 then 0.7 else 0.3)))"

definition format_style_map :: "(string \<times> string list) list" where
  "format_style_map =
     [(''hands-on'', [''hands-on'', ''practical'', ''project-based'', ''interactive'']),
      (''video'', [''visual'', ''auditory'', ''multimedia'']),
      (''interactive'', [''hands-on'', ''visual'', ''engaging'']),
      (''text'', [''reading'', ''theoretical'', ''self-paced'']),
      (''live'', [''interactive'', ''collaborative'', ''social'']),
      (''project-based'', [''hands-on'', ''practical'', ''applied''])]"

text \<open>\<open>_calculate_learning_style_score\<close>\<close>

definition calculate_learning_style_score :: "string option \<Rightarrow> string option \<Rightarrow> real" where
  "calculate_learning_style_score course_format preferred_style =
     (if \<not> truthy preferred_style \<or> \<not> truthy course_format then 0.5
      else
        let preferred_lower = py_lower (the preferred_style);
            course_format_lower = py_lower (the course_format)
        in if contains course_format_lower preferred_lower then 1
           else if list_ex (\<lambda>(format_key, compatible_styles).
                      contains course_format_lower format_key \<and>
                      list_ex (\<lambda>style. contains preferred_lower style) compatible_styles)
                    format_style_map
           then 0.8 else 0.4)"

text \<open>\<open>_calculate_diversity_score\<close>\<close>

definition calculate_diversity_score :: "string list \<Rightarrow> string list \<Rightarrow> real" where
  "calculate_diversity_score course_topics preferred_topics =
     (if course_topics = [] \<or> preferred_topics = [] then 0.2
      else
        let new_topics = filter (\<lambda>t. py_lower t \<notin> set (map py_lower preferred_topics)) course_topics;
            diversity_ratio = real (length new_topics) / real (length course_topics)
        in diversity_ratio * 0.5)"


subsection \<open>Topics of positively rated courses\<close>

text \<open>The catalog lookup \<open>SELECT topics FROM courses WHERE id = ?\<close> followed by
  \<open>json.loads\<close>, a collaborator of the engine: \<open>Inl\<close> when the query or the decoding raises,
  \<open>Inr None\<close> when there is no row or the column is empty, \<open>Inr (Some ts)\<close> otherwise.\<close>

type_synonym topics_lookup = "string \<Rightarrow> error + string list option"

text \<open>\<open>_extract_positive_topic_patterns\<close>: an exception of a lookup ends the loop.\<close>

fun extract_positive_topic_patterns ::
  "topics_lookup \<Rightarrow> feedback list \<Rightarrow> error + string list" where
  "extract_positive_topic_patterns lookup [] = Inr []"
| "extract_positive_topic_patterns lookup (fb # rest) =
     (if fb_rating fb \<ge> 4 \<and> truthy (fb_course_id fb) then
        (case lookup (the (fb_course_id fb)) of
           Inl e \<Rightarrow> Inl e
         | Inr row \<Rightarrow>
            (case extract_positive_topic_patterns lookup rest of
               Inl e \<Rightarrow> Inl e
             | Inr later \<Rightarrow> Inr ((case row of None \<Rightarrow> [] | Some ts \<Rightarrow> ts) @ later)))
      else extract_positive_topic_patterns lookup rest)"


subsection \<open>The composite score\<close>

text \<open>\<open>course['rating'] / 5.0\<close> raises \<open>TypeError\<close> on \<open>None\<close>.\<close>

definition rating_over_5 :: "candidate \<Rightarrow> error + real" where
  "rating_over_5 course = (case rating course of None \<Rightarrow> Inl TypeError | Some r \<Rightarrow> Inr (r / 5))"

text \<open>\<open>course.get('vector_similarity', 0.0)\<close>\<close>

definition get_vector_similarity :: "candidate \<Rightarrow> real" where
  "get_vector_similarity course = (case vector_similarity course of None \<Rightarrow> 0 | Some v \<Rightarrow> v)"

text \<open>A list comprehension or loop whose body may raise: the first exception ends it.\<close>

fun map_raise :: "('a \<Rightarrow> error + 'b) \<Rightarrow> 'a list \<Rightarrow> error + 'b list" where
  "map_raise f [] = Inr []"
| "map_raise f (x # xs) =
     (case f x of
        Inl e \<Rightarrow> Inl e
      | Inr y \<Rightarrow> (case map_raise f xs of Inl e \<Rightarrow> Inl e | Inr ys \<Rightarrow> Inr (y # ys)))"

text \<open>The comprehension of the branch \<open>if not user_context\<close>.\<close>

definition score_without_context :: "candidate \<Rightarrow> error + candidate \<times> real" where
  "score_without_context course =
     (case rating_over_5 course of
        Inl e \<Rightarrow> Inl e
      | Inr b \<Rightarrow> Inr (course, b + get_vector_similarity course * 0.5))"

text \<open>The body of the scoring loop: the score starts at 0 and each signal is added in
  the order of the source.\<close>

definition score_with_context ::
  "preferences \<Rightarrow> string list \<Rightarrow> candidate \<Rightarrow> error + candidate \<times> real" where
  "score_with_context prefs positive_topics course =
     (case rating_over_5 course of
        Inl e \<Rightarrow> Inl e
      | Inr b \<Rightarrow>
         (let score = 0;
              base_score = b * 0.2;
              score = score + base_score;
              vector_score = get_vector_similarity course * 0.4;
              score = score + vector_score;
              topic_score =
                calculate_topic_score (topics course) (pref_topics prefs) positive_topics * 0.3;
              score = score + topic_score;
              difficulty_score =
                calculate_difficulty_score (difficulty course) (pref_difficulty prefs) * 0.1;
              score = score + difficulty_score;
              style_score =
                calculate_learning_style_score (format course) (pref_learning_style prefs) * 0.05;
              score = score + style_score;
              diversity_score =
                calculate_diversity_score (topics course) (pref_topics prefs) * 0.05;
              score = score + diversity_score;
              score = (if source course = Some Vector then score + 0.02 else score)
          in Inr (course, score)))"

text \<open>The handler of \<open>_score_courses\<close>: the rating alone, for every course.\<close>

definition score_rating_only :: "candidate \<Rightarrow> error + candidate \<times> real" where
  "score_rating_only course =
     (case rating_over_5 course of Inl e \<Rightarrow> Inl e | Inr b \<Rightarrow> Inr (course, b))"

text \<open>The \<open>try\<close> block of \<open>_score_courses\<close>.\<close>

definition score_courses_try ::
  "topics_lookup \<Rightarrow> user_context option \<Rightarrow> candidate list \<Rightarrow> error + (candidate \<times> real) list" where
  "score_courses_try lookup ctx courses =
     (case ctx of
        None \<Rightarrow> map_raise score_without_context courses
      | Some uc \<Rightarrow>
         (case extract_positive_topic_patterns lookup (recent_feedback uc) of
            Inl e \<Rightarrow> Inl e
          | Inr positive_topics \<Rightarrow>
              map_raise (score_with_context (ctx_preferences uc) positive_topics) courses))"

text \<open>\<open>_score_courses\<close>: an exception of the \<open>try\<close> block is handled by scoring every course
  with its rating alone; an exception of the handler leaves the function.\<close>

definition score_courses ::
  "topics_lookup \<Rightarrow> user_context option \<Rightarrow> candidate list \<Rightarrow> error + (candidate \<times> real) list" where
  "score_courses lookup ctx courses =
     (case score_courses_try lookup ctx courses of
        Inr scored \<Rightarrow> Inr scored
      | Inl e \<Rightarrow> map_raise score_rating_only courses)"


text \<open>The course and the user of the end-to-end scenario.\<close>

definition demo_candidate :: candidate where
  "demo_candidate =
     \<lparr>course_id = ''c1'', title = ''Python Basics'', description = ''An introduction'',
      topics = [''python'', ''fundamentals''], difficulty = Some ''beginner'',
      duration = ''4 weeks'', format = Some ''interactive'', rating = Some 4.5,
      vector_similarity = Some 0.6, source = Some Vector\<rparr>"





section \<open>Candidate fusion\<close>

text \<open>\<open>_combine_recommendations\<close> stores the dictionaries it is given in \<open>combined\<close> and
  writes their \<open>source\<close> key in place, so the lists it receives and the list it returns
  share their elements.  The model therefore keeps the dictionaries in a heap: a list of
  candidates is a list of references, and writing \<open>source\<close> updates the heap.\<close>

type_synonym ref = nat

type_synonym heap = "ref \<Rightarrow> candidate"

text \<open>A dictionary with its \<open>source\<close> key set.\<close>

definition with_source :: "provenance \<Rightarrow> candidate \<Rightarrow> candidate" where
  "with_source p c = c\<lparr>source := Some p\<rparr>"

text \<open>\<open>combined[course_id]['source'] = p\<close>, where \<open>combined[course_id]\<close> is the dictionary
  \<open>a\<close>.\<close>

definition set_source :: "provenance \<Rightarrow> ref \<Rightarrow> heap \<Rightarrow> heap" where
  "set_source p a h = h(a := with_source p (h a))"

text \<open>The dictionary \<open>combined\<close> is an association list in insertion order:
  \<open>AList.update\<close> replaces the value of a key that is present where it stands and appends
  a new key at the end, as assignment to a Python \<open>dict\<close> does.\<close>

fun combine_vector ::
  "(string \<times> ref) list \<Rightarrow> heap \<Rightarrow> ref list \<Rightarrow> (string \<times> ref) list \<times> heap" where
  "combine_vector combined h [] = (combined, h)"
| "combine_vector combined h (course # vector_courses) =
     (let cid = course_id (h course) in
      combine_vector (AList.update cid course combined) (set_source Vector course h)
        vector_courses)"

fun combine_content ::
  "(string \<times> ref) list \<Rightarrow> heap \<Rightarrow> ref list \<Rightarrow> (string \<times> ref) list \<times> heap" where
  "combine_content combined h [] = (combined, h)"
| "combine_content combined h (course # content_courses) =
     (let cid = course_id (h course) in
      if cid \<notin> set (map fst combined)
      then combine_content (AList.update cid course combined) (set_source Content course h)
             content_courses
      else combine_content combined h content_courses)"

text \<open>\<open>_combine_recommendations\<close>: the heap after the call and \<open>list(combined.values())\<close>.\<close>

definition combine_recommendations :: "heap \<Rightarrow> ref list \<Rightarrow> ref list \<Rightarrow> heap \<times> ref list" where
  "combine_recommendations h vector_courses content_courses =
     (let (combined, h) = combine_vector [] h vector_courses;
          (combined, h) = combine_content combined h content_courses
      in (h, map snd combined))"

text \<open>The candidates a list of references stands for.\<close>

definition deref :: "heap \<Rightarrow> ref list \<Rightarrow> candidate list" where
  "deref h refs = map h refs"

text \<open>The call as \<open>get_personalized_recommendations\<close> makes it: the two retrieval stages
  return lists of newly built dictionaries, so every element has a reference of its own.\<close>

definition fresh_heap :: "candidate list \<Rightarrow> heap" where
  "fresh_heap cs = (\<lambda>a. cs ! a)"

definition combine_fresh :: "candidate list \<Rightarrow> candidate list \<Rightarrow> candidate list" where
  "combine_fresh vector_courses content_courses =
     (let (h, out) =
            combine_recommendations (fresh_heap (vector_courses @ content_courses))
              [0 ..< length vector_courses]
              [length vector_courses ..< length vector_courses + length content_courses]
      in deref h out)"


section \<open>Ranking, the result cache and the fallback\<close>

text \<open>\<open>xs.sort(key=key, reverse=True)\<close>.  Python's sort is stable, also with
  \<open>reverse=True\<close>: the list is reversed, sorted stably in ascending order of the key, and
  reversed again.  \<open>sort_key\<close> is a stable (insertion) sort.\<close>

definition py_sort_reverse :: "('a \<Rightarrow> real) \<Rightarrow> 'a list \<Rightarrow> 'a list" where
  "py_sort_reverse key xs = rev (sort_key key (rev xs))"

text \<open>The slice \<open>xs[:n]\<close>; a negative \<open>n\<close> counts from the end.\<close>

definition py_slice_to :: "int \<Rightarrow> 'a list \<Rightarrow> 'a list" where
  "py_slice_to n xs = (if 0 \<le> n then take (nat n) xs else take (length xs - nat (- n)) xs)"

text \<open>\<open>round(x, 3)\<close>, ties to the even neighbour.\<close>

definition py_round3 :: "real \<Rightarrow> real" where
  "py_round3 x =
     (let y = x * 1000; f = \<lfloor>y\<rfloor>; d = y - of_int f in
      of_int (if d < 1 / 2 then f else if 1 / 2 < d then f + 1
              else if even f then f else f + 1) / 1000)"

text \<open>\<open>CourseResponse\<close> (\<open>models.py\<close>): \<open>difficulty\<close>, \<open>format\<close> and \<open>rating\<close> are required
  and not optional, so validation fails on \<open>None\<close>.\<close>

record course_response =
  r_id :: string
  r_title :: string
  r_description :: string
  r_topics :: "string list"
  r_difficulty :: string
  r_duration :: string
  r_format :: string
  r_rating :: real
  similarity_score :: "real option"

definition new_course_response ::
  "string \<Rightarrow> string \<Rightarrow> string \<Rightarrow> string list \<Rightarrow> string option \<Rightarrow> string \<Rightarrow> string option
     \<Rightarrow> real option \<Rightarrow> real option \<Rightarrow> error + course_response" where
  "new_course_response i t d ts df du fo ra sim =
     (case (df, fo, ra) of
        (Some df', Some fo', Some ra') \<Rightarrow>
          Inr \<lparr>r_id = i, r_title = t, r_description = d, r_topics = ts, r_difficulty = df',
               r_duration = du, r_format = fo', r_rating = ra', similarity_score = sim\<rparr>
      | _ \<Rightarrow> Inl ValidationError)"

text \<open>The loop body of lines 58 to 61: \<open>CourseResponse(**course)\<close>, whose keys
  \<open>vector_similarity\<close> and \<open>source\<close> are ignored, then the assignment of the rounded
  score.\<close>

definition to_response :: "candidate \<times> real \<Rightarrow> error + course_response" where
  "to_response p =
     (case p of (course, score) \<Rightarrow>
        (case new_course_response (course_id course) (title course) (description course)
                (topics course) (difficulty course) (duration course) (format course)
                (rating course) None of
           Inl e \<Rightarrow> Inl e
         | Inr course_response \<Rightarrow>
             Inr (course_response\<lparr>similarity_score := Some (py_round3 score)\<rparr>)))"

text \<open>Lines 54 and 55: scoring, then the sort by descending score.  Scores are real
  numbers here and double-precision numbers in the program; the sort only compares them,
  and what is proved about it holds for every assignment of scores to the candidates.\<close>

definition rank_courses ::
  "topics_lookup \<Rightarrow> user_context option \<Rightarrow> candidate list \<Rightarrow> error + (candidate \<times> real) list" where
  "rank_courses lookup ctx combined_courses =
     (case score_courses lookup ctx combined_courses of
        Inl e \<Rightarrow> Inl e
      | Inr scored_courses \<Rightarrow> Inr (py_sort_reverse snd scored_courses))"


text \<open>Three candidates, two of which (\<open>demo_a\<close> and \<open>demo_c\<close>) have the same rating and the
  same similarity, so that their scores are equal whatever the arithmetic: without a
  user context both are \<open>3 / 5.0 + 0.0 * 0.5\<close>.\<close>

definition demo_a :: candidate where
  "demo_a = demo_candidate\<lparr>course_id := ''a'', rating := Some 3, vector_similarity := Some 0\<rparr>"

definition demo_b :: candidate where
  "demo_b = demo_candidate\<lparr>course_id := ''b'', rating := Some 4, vector_similarity := Some 0\<rparr>"

definition demo_c :: candidate where
  "demo_c = demo_candidate\<lparr>course_id := ''c'', rating := Some 3, vector_similarity := Some 0\<rparr>"


subsection \<open>The cache key\<close>

text \<open>\<open>str(n)\<close> for an integer: its decimal digits, with a leading minus sign when
  negative.\<close>

fun str_nat :: "nat \<Rightarrow> string" where
  "str_nat n = (if n < 10 then [ascii_digits ! n] else str_nat (n div 10) @ [ascii_digits ! (n mod 10)])"

definition str_int :: "int \<Rightarrow> string" where
  "str_int i = (if i < 0 then CHR ''-'' # str_nat (nat (- i)) else str_nat (nat i))"

text \<open>\<open>str(query)\<close> for the optional query: \<open>str(None)\<close> is the text \<open>None\<close>.\<close>

definition str_query :: "string option \<Rightarrow> string" where
  "str_query query = (case query of None \<Rightarrow> ''None'' | Some q \<Rightarrow> q)"

text \<open>Line 38, \<open>f"rec_{user_id}_{hash(str(query))}_{max_results}"\<close>.  The built-in \<open>hash\<close>
  is a parameter: any function from strings to integers.\<close>

definition cache_key :: "(string \<Rightarrow> int) \<Rightarrow> int \<Rightarrow> string option \<Rightarrow> int \<Rightarrow> string" where
  "cache_key py_hash user_id query max_results =
     ''rec_'' @ str_int user_id @ ''_'' @ str_int (py_hash (str_query query)) @ ''_''
       @ str_int max_results"


subsection \<open>What the two loops of the fusion compute\<close>

text \<open>The functions of this subsection are not code of the engine: they describe the
  results of its loops and are used to state and prove the properties of the fusion.
  \<open>tag_refs p as h\<close> is the heap \<open>h\<close> with \<open>source\<close> set to \<open>p\<close> in the dictionaries \<open>as\<close>;
  \<open>upd_all k d as\<close> assigns every \<open>a\<close> of \<open>as\<close> to its key \<open>k a\<close> in \<open>d\<close>, in order;
  \<open>new_entries k seen cs\<close> are the entries for the first occurrences in \<open>cs\<close> of the keys
  that are not in \<open>seen\<close>.\<close>

definition tag_refs :: "provenance \<Rightarrow> ref list \<Rightarrow> heap \<Rightarrow> heap" where
  "tag_refs p as h = (\<lambda>a. if a \<in> set as then with_source p (h a) else h a)"

fun upd_all :: "(ref \<Rightarrow> string) \<Rightarrow> (string \<times> ref) list \<Rightarrow> ref list \<Rightarrow> (string \<times> ref) list" where
  "upd_all k d [] = d"
| "upd_all k d (a # as) = upd_all k (AList.update (k a) a d) as"

fun new_entries :: "(ref \<Rightarrow> string) \<Rightarrow> string list \<Rightarrow> ref list \<Rightarrow> (string \<times> ref) list" where
  "new_entries k seen [] = []"
| "new_entries k seen (c # cs) =
     (if k c \<in> set seen then new_entries k seen cs
      else (k c, c) # new_entries k (seen @ [k c]) cs)"


text \<open>Inputs of the fusion: two vector candidates \<open>a\<close> and \<open>b\<close>, a content candidate with
  the identifier \<open>a\<close> again and one with the new identifier \<open>c\<close>, each a dictionary of its
  own in the heap and none with a \<open>source\<close> key yet.\<close>

definition demo_va :: candidate where
  "demo_va = demo_a\<lparr>vector_similarity := Some 0.9, source := None\<rparr>"

definition demo_vb :: candidate where
  "demo_vb = demo_b\<lparr>vector_similarity := Some 0.7, source := None\<rparr>"

definition demo_ca :: candidate where
  "demo_ca = demo_a\<lparr>title := ''Python Basics (catalog)'', source := None\<rparr>"

definition demo_cc :: candidate where
  "demo_cc = demo_c\<lparr>source := None\<rparr>"

definition demo_heap :: heap where
  "demo_heap = fresh_heap [demo_va, demo_vb, demo_ca, demo_cc]"


subsection \<open>The fallback\<close>

text \<open>A row of the table \<open>courses\<close> as the fallback reads it.  \<open>row_topics\<close> is the outcome of
  \<open>json.loads(course[3]) if course[3] else []\<close>: an error when the stored text is not
  JSON.  The columns \<open>difficulty\<close>, \<open>format\<close> and \<open>rating\<close> may hold \<open>NULL\<close>.\<close>

record catalog_row =
  row_id :: string
  row_title :: string
  row_description :: string
  row_topics :: "error + string list"
  row_difficulty :: "string option"
  row_duration :: string
  row_format :: "string option"
  row_rating :: "real option"

text \<open>Modelled from the spec: the Catalog Store's \<open>top_rated(limit)\<close>, "ordered descending
  by rating", which the source asks of the database engine with
  \<open>ORDER BY rating DESC LIMIT ?\<close>; the engine is not part of the repository.  A \<open>NULL\<close>
  rating sorts below every number (\<open>None\<close> is the least element of the option order), rows
  of equal rating stay in table order, and a negative limit means no limit, as in SQLite.\<close>

definition sql_order_by_rating_desc :: "catalog_row list \<Rightarrow> catalog_row list" where
  "sql_order_by_rating_desc rows = rev (sort_key row_rating (rev rows))"

definition sql_limit :: "int \<Rightarrow> 'a list \<Rightarrow> 'a list" where
  "sql_limit n rows = (if n < 0 then rows else take (nat n) rows)"

text \<open>\<open>execute_query\<close> of the fallback's statement: the catalog is either unreachable (the
  call raises) or holds its rows.\<close>

definition top_rated_query :: "error + catalog_row list \<Rightarrow> int \<Rightarrow> error + catalog_row list" where
  "top_rated_query catalog max_results =
     (case catalog of
        Inl e \<Rightarrow> Inl e
      | Inr rows \<Rightarrow> Inr (sql_limit max_results (sql_order_by_rating_desc rows)))"

text \<open>The loop body of \<open>_get_fallback_recommendations\<close>.  The arguments are evaluated in
  order: decoding the topics may raise, then \<open>course[7] / 5.0\<close> raises on \<open>NULL\<close>, then the
  model is validated.\<close>

definition row_response :: "catalog_row \<Rightarrow> error + course_response" where
  "row_response course =
     (case row_topics course of
        Inl e \<Rightarrow> Inl e
      | Inr ts \<Rightarrow>
         (case row_rating course of
            None \<Rightarrow> Inl TypeError
          | Some r \<Rightarrow>
              new_course_response (row_id course) (row_title course) (row_description course) ts
                (row_difficulty course) (row_duration course) (row_format course)
                (row_rating course) (Some (r / 5))))"

text \<open>The \<open>try\<close> block of \<open>_get_fallback_recommendations\<close>, and the function with its
  handler, which returns the empty list.\<close>

definition fallback_try :: "error + catalog_row list \<Rightarrow> int \<Rightarrow> error + course_response list" where
  "fallback_try catalog max_results =
     (case top_rated_query catalog max_results of
        Inl e \<Rightarrow> Inl e
      | Inr courses \<Rightarrow> map_raise row_response courses)"

definition get_fallback_recommendations ::
  "error + catalog_row list \<Rightarrow> int \<Rightarrow> course_response list" where
  "get_fallback_recommendations catalog max_results =
     (case fallback_try catalog max_results of Inl e \<Rightarrow> [] | Inr result \<Rightarrow> result)"


subsection \<open>The request: cache, compute path, fallback\<close>

text \<open>What the engine calls outside itself.  \<open>vector_stage\<close> and \<open>content_stage\<close> are the
  \<open>try\<close> blocks of \<open>_get_vector_recommendations\<close> and
  \<open>_get_content_based_recommendations\<close> (query building, the vector search, the SQL
  filter): \<open>Inl\<close> when anything in the block raises.\<close>

record collaborators =
  builtin_hash :: "string \<Rightarrow> int"
  vector_stage :: "int \<Rightarrow> string option \<Rightarrow> user_context option \<Rightarrow> error + candidate list"
  content_stage :: "int \<Rightarrow> string option \<Rightarrow> user_context option \<Rightarrow> error + candidate list"
  catalog_topics :: topics_lookup
  catalog :: "error + catalog_row list"

text \<open>Both retrieval functions catch every exception of their block and return the empty
  list.\<close>

definition get_vector_recommendations ::
  "collaborators \<Rightarrow> int \<Rightarrow> string option \<Rightarrow> user_context option \<Rightarrow> candidate list" where
  "get_vector_recommendations env user_id query ctx =
     (case vector_stage env user_id query ctx of Inl e \<Rightarrow> [] | Inr candidates \<Rightarrow> candidates)"

definition get_content_based_recommendations ::
  "collaborators \<Rightarrow> int \<Rightarrow> string option \<Rightarrow> user_context option \<Rightarrow> candidate list" where
  "get_content_based_recommendations env user_id query ctx =
     (case content_stage env user_id query ctx of Inl e \<Rightarrow> [] | Inr candidates \<Rightarrow> candidates)"

text \<open>Lines 50 to 61, the compute path.\<close>

definition compute_recommendations ::
  "collaborators \<Rightarrow> int \<Rightarrow> string option \<Rightarrow> user_context option \<Rightarrow> int
     \<Rightarrow> error + course_response list" where
  "compute_recommendations env user_id query ctx max_results =
     (let vector_courses = get_vector_recommendations env user_id query ctx;
          content_courses = get_content_based_recommendations env user_id query ctx;
          combined_courses = combine_fresh vector_courses content_courses
      in case rank_courses (catalog_topics env) ctx combined_courses of
           Inl e \<Rightarrow> Inl e
         | Inr scored_courses \<Rightarrow> map_raise to_response (py_slice_to max_results scored_courses))"

text \<open>The state of the engine: the cache, a dictionary from keys to entries, and a counter
  of the runs of the compute path.  The counter is not in the source; it records that
  line 50 was reached, so that "without invoking the compute path" can be stated.\<close>

record cache_entry =
  data :: "course_response list"
  timestamp :: real

record engine =
  cache :: "string \<Rightarrow> cache_entry option"
  compute_runs :: nat

definition cache_ttl :: real where
  "cache_ttl = 300"

text \<open>\<open>get_personalized_recommendations\<close>.  Times are seconds; \<open>now_read\<close> and \<open>now_write\<close>
  are the two readings of the clock, at line 41 and at line 67.\<close>

definition get_personalized_recommendations ::
  "collaborators \<Rightarrow> real \<Rightarrow> real \<Rightarrow> engine \<Rightarrow> int \<Rightarrow> string option \<Rightarrow> user_context option
     \<Rightarrow> int \<Rightarrow> bool \<Rightarrow> course_response list \<times> engine" where
  "get_personalized_recommendations env now_read now_write st user_id query ctx max_results
       force_refresh =
     (let key = cache_key (builtin_hash env) user_id query max_results;
          found = (\<not> force_refresh \<and> cache st key \<noteq> None)
      in if found \<and> now_read - timestamp (the (cache st key)) < cache_ttl
         then (data (the (cache st key)), st)
         else
           let st = (if found then st\<lparr>cache := (cache st)(key := None)\<rparr> else st);
               st = st\<lparr>compute_runs := Suc (compute_runs st)\<rparr>
           in case compute_recommendations env user_id query ctx max_results of
                Inr recommendations \<Rightarrow>
                  (recommendations,
                   st\<lparr>cache := (cache st)(key \<mapsto>
                        \<lparr>data = recommendations, timestamp = now_write\<rparr>)\<rparr>)
              | Inl e \<Rightarrow> (get_fallback_recommendations (catalog env) max_results, st))"


text \<open>A catalog of three courses with three different ratings (so that the order of the
  top-rated query does not depend on how the database breaks ties), an engine with an empty
  cache, and collaborators: both retrieval stages answering; the vector stage raising; and
  a content stage that returns a course whose difficulty is \<open>NULL\<close>, which
  \<open>CourseResponse\<close> rejects.\<close>

definition demo_cb :: candidate where
  "demo_cb = demo_b\<lparr>source := None\<rparr>"

definition row_of :: "candidate \<Rightarrow> catalog_row" where
  "row_of c =
     \<lparr>row_id = course_id c, row_title = title c, row_description = description c,
      row_topics = Inr (topics c), row_difficulty = difficulty c, row_duration = duration c,
      row_format = format c, row_rating = rating c\<rparr>"

definition demo_env :: collaborators where
  "demo_env =
     \<lparr>builtin_hash = (\<lambda>s. int (length s)),
      vector_stage = (\<lambda>u q c. Inr [demo_va]),
      content_stage = (\<lambda>u q c. Inr [demo_ca, demo_cb]),
      catalog_topics = (\<lambda>i. Inr None),
      catalog = Inr [row_of demo_a, row_of demo_b, row_of demo_candidate]\<rparr>"



definition demo_engine :: engine where
  "demo_engine = \<lparr>cache = (\<lambda>k. None), compute_runs = 0\<rparr>"


section \<open>Negative keywords of a query\<close>

text \<open>\<open>re.findall(prefix + "(class+)", text)\<close> for a literal \<open>prefix\<close> and a character class
  given as a predicate: the scan tries every position from the left; where the prefix
  stands and at least one character of the class follows, the match is the prefix with
  the longest run of class characters, its group is that run, and the scan goes on
  behind the match.\<close>

function findall_after :: "(char \<Rightarrow> bool) \<Rightarrow> string \<Rightarrow> string \<Rightarrow> string list" where
  "findall_after cls prefix [] = []"
| "findall_after cls prefix (c # cs) =
     (if take (length prefix) (c # cs) = prefix
         \<and> takeWhile cls (drop (length prefix) (c # cs)) \<noteq> []
      then takeWhile cls (drop (length prefix) (c # cs))
             # findall_after cls prefix (dropWhile cls (drop (length prefix) (c # cs)))
      else findall_after cls prefix cs)"
  by pat_completeness auto
termination
proof (relation "measure (\<lambda>(cls, prefix, text). length text)")
  show "wf (measure (\<lambda>(cls, prefix, text). length text))" by simp
next
  fix cls :: "char \<Rightarrow> bool" and prefix :: string and c :: char and cs :: string
  assume "take (length prefix) (c # cs) = prefix
            \<and> takeWhile cls (drop (length prefix) (c # cs)) \<noteq> []"
  then have "takeWhile cls (drop (length prefix) (c # cs)) \<noteq> []" by simp
  then have "length (dropWhile cls (drop (length prefix) (c # cs)))
               < length (drop (length prefix) (c # cs))"
    by (metis length_greater_0_conv length_append takeWhile_dropWhile_id less_add_same_cancel2)
  also have "\<dots> \<le> length (c # cs)" by simp
  finally show "((cls, prefix, dropWhile cls (drop (length prefix) (c # cs))), cls, prefix, c # cs)
                  \<in> measure (\<lambda>(cls, prefix, text). length text)"
    by simp
next
  fix cls :: "char \<Rightarrow> bool" and prefix :: string and c :: char and cs :: string
  show "((cls, prefix, cs), cls, prefix, c # cs) \<in> measure (\<lambda>(cls, prefix, text). length text)"
    by simp
qed


text \<open>The literal parts of the eight patterns \<open>r"... ([^,.!?]+)"\<close>, in the order of the
  source (the same list in both services).\<close>

definition negative_patterns :: "string list" where
  "negative_patterns =
     [''don'' @ [CHR 0x27] @ ''t want to learn '', ''not interested in '', ''avoid '',
      ''but not '', ''except '', ''without '', ''no '',
      ''I don'' @ [CHR 0x27] @ ''t like '']"





section \<open>Properties of the negative filter\<close>

lemma exclude_loop_iff:
  "exclude_loop tp tt kws \<longleftrightarrow>
     (\<exists>k \<in> set kws. 3 \<le> length (py_strip (py_lower k)) \<and>
        (py_strip (py_lower k) \<in> tp \<or> py_strip (py_lower k) \<in> tt))"
  by (induction kws) (auto simp: Let_def)

lemma exclude_loop_filter:
  "exclude_loop tp tt (filter (\<lambda>k. 3 \<le> length (py_strip (py_lower k))) kws)
     = exclude_loop tp tt kws"
  by (induction kws) (auto simp: Let_def)

text \<open>
  Claim C10.  A course is excluded exactly when some keyword whose lowercased, stripped
  form has at least three characters equals one of the course's title tokens or one of its
  lowercased topic tags; hence keywords shorter than three characters never exclude a
  course, and dropping them from the keyword list does not change the decision.
\<close>

theorem should_exclude_course_only_long_keywords:
  "(should_exclude_course course kws \<longleftrightarrow>
      (\<exists>k \<in> set kws. 3 \<le> length (py_strip (py_lower k)) \<and>
         (py_strip (py_lower k) \<in> title_tokens_of course \<or>
          py_strip (py_lower k) \<in> topic_tokens_of course)))
   \<and> should_exclude_course course
        (filter (\<lambda>k. 3 \<le> length (py_strip (py_lower k))) kws)
      = should_exclude_course course kws"
proof -
  have a: "should_exclude_course course kws \<longleftrightarrow>
      (\<exists>k \<in> set kws. 3 \<le> length (py_strip (py_lower k)) \<and>
         (py_strip (py_lower k) \<in> title_tokens_of course \<or>
          py_strip (py_lower k) \<in> topic_tokens_of course))"
    unfolding should_exclude_course_def
    by (cases kws) (auto simp: exclude_loop_iff simp del: exclude_loop.simps)
  have b: "should_exclude_course course
        (filter (\<lambda>k. 3 \<le> length (py_strip (py_lower k))) kws)
      = should_exclude_course course kws"
    unfolding should_exclude_course_def
    using exclude_loop_filter [of "topic_tokens_of course" "title_tokens_of course" kws]
    by (auto simp: exclude_loop_iff filter_empty_conv simp del: exclude_loop.simps)
  from a b show ?thesis by blast
qed

lemmas text_eval_defs =
  py_lower_def lower_char_def ascii_upper_def ascii_lower_def ascii_digits_def
  py_strip_def is_space_def py_whitespace_def is_word_char_def
  py_split_def findall_words_def

theorem should_exclude_course_only_long_keywords_witness:
  "should_exclude_course demo_props
      (filter (\<lambda>k. 3 \<le> length (py_strip (py_lower k))) [''to'', '' SQL ''])
     = should_exclude_course demo_props [''to'', '' SQL '']
   \<and> should_exclude_course demo_props [''to'', '' SQL '']
   \<and> \<not> should_exclude_course demo_props [''to'']
   \<and> ''to'' \<in> title_tokens_of demo_props"
proof -
  have e1: "should_exclude_course demo_props [''to'', '' SQL '']" by code_simp
  have e2: "\<not> should_exclude_course demo_props [''to'']" by code_simp
  have e3: "''to'' \<in> title_tokens_of demo_props" by code_simp
  note main = should_exclude_course_only_long_keywords [of demo_props "[''to'', '' SQL '']"]
  show ?thesis by (intro conjI main [THEN conjunct2] e1 e2 e3)
qed


section \<open>Properties of the topic score\<close>

lemma preferred_hit_range: "0 \<le> preferred_hit pt t \<and> preferred_hit pt t \<le> 1"
  by (simp add: preferred_hit_def)

lemma frequency_weight_range:
  "0 \<le> frequency_weight pos t \<and> frequency_weight pos t \<le> 0.8"
  by (auto simp: frequency_weight_def Let_def min_def)

lemma frequency_weight_mono:
  assumes "positive_counter pos (py_lower t) \<le> positive_counter pos' (py_lower t)"
  shows "frequency_weight pos t \<le> frequency_weight pos' t"
proof -
  let ?c = "positive_counter pos (py_lower t)" and ?d = "positive_counter pos' (py_lower t)"
  have "real ?c \<le> real ?d" using assms by simp
  then have m: "min (real ?c / 3) 0.8 \<le> min (real ?d / 3) (0.8 :: real)"
    by (auto simp: min_def)
  have z: "0 \<le> min (real ?d / 3) (0.8 :: real)" by (auto simp: min_def)
  show ?thesis
  proof (cases "0 < ?c")
    case True
    then have "0 < ?d" using assms by linarith
    with True m show ?thesis by (simp only: frequency_weight_def Let_def if_True)
  next
    case False
    then have "frequency_weight pos t = 0" by (simp add: frequency_weight_def Let_def)
    moreover have "0 \<le> frequency_weight pos' t" using frequency_weight_range by blast
    ultimately show ?thesis by simp
  qed
qed

lemma sum_list_nonneg_real:
  "(\<And>x. x \<in> set xs \<Longrightarrow> 0 \<le> f x) \<Longrightarrow> (0::real) \<le> sum_list (map f xs)"
  by (induction xs) auto

lemma topic_raw_nonneg:
  "0 \<le> sum_list (map (preferred_hit pt) ct) + sum_list (map (frequency_weight pos) ct)"
proof -
  have "0 \<le> sum_list (map (preferred_hit pt) ct)"
    by (rule sum_list_nonneg_real) (simp add: preferred_hit_range)
  moreover have "0 \<le> sum_list (map (frequency_weight pos) ct)"
    by (rule sum_list_nonneg_real) (simp add: frequency_weight_range)
  ultimately show ?thesis by simp
qed

lemma calculate_topic_score_eq:
  "calculate_topic_score ct pt pos =
     (if ct = [] then 0
      else min ((sum_list (map (preferred_hit pt) ct)
                 + sum_list (map (frequency_weight pos) ct)) / real (length ct)) 1)"
  by (cases ct) (simp_all add: calculate_topic_score_def Let_def)

lemma calculate_topic_score_range:
  "0 \<le> calculate_topic_score ct pt pos \<and> calculate_topic_score ct pt pos \<le> 1"
proof (cases "ct = []")
  case True
  then show ?thesis by (simp add: calculate_topic_score_eq)
next
  case False
  have "0 \<le> (sum_list (map (preferred_hit pt) ct)
                 + sum_list (map (frequency_weight pos) ct)) / real (length ct)"
    using topic_raw_nonneg [of pt ct pos] by simp
  then show ?thesis using False by (simp add: calculate_topic_score_eq)
qed

lemma calculate_topic_score_replace:
  assumes "py_lower t \<notin> set (map py_lower pt)" and "py_lower t' \<in> set (map py_lower pt)"
  shows "calculate_topic_score (xs @ t # ys) pt pos \<le> calculate_topic_score (xs @ t' # ys) pt pos"
proof -
  let ?S = "\<lambda>u. sum_list (map (preferred_hit pt) (xs @ u # ys))
              + sum_list (map (frequency_weight pos) (xs @ u # ys))"
  have h0: "preferred_hit pt t = 0" and h1: "preferred_hit pt t' = 1"
    using assms by (simp_all add: preferred_hit_def)
  have "frequency_weight pos t \<le> 0.8" and "0 \<le> frequency_weight pos t'"
    using frequency_weight_range by blast+
  then have "?S t \<le> ?S t'" using h0 h1 by simp
  then have "?S t / real (length (xs @ t # ys)) \<le> ?S t' / real (length (xs @ t' # ys))"
    by (simp add: divide_right_mono)
  then have "min (?S t / real (length (xs @ t # ys))) 1
               \<le> min (?S t' / real (length (xs @ t' # ys))) 1"
    by (rule min.mono) simp
  then show ?thesis by (simp only: calculate_topic_score_eq) simp
qed

lemma calculate_topic_score_history_mono:
  assumes "\<forall>t \<in> set ct. positive_counter pos (py_lower t) \<le> positive_counter pos' (py_lower t)"
  shows "calculate_topic_score ct pt pos \<le> calculate_topic_score ct pt pos'"
proof (cases "ct = []")
  case True
  then show ?thesis by (simp add: calculate_topic_score_eq)
next
  case False
  have "sum_list (map (frequency_weight pos) ct) \<le> sum_list (map (frequency_weight pos') ct)"
    by (rule sum_list_mono) (use assms frequency_weight_mono in blast)
  then have "(sum_list (map (preferred_hit pt) ct) + sum_list (map (frequency_weight pos) ct))
                / real (length ct)
             \<le> (sum_list (map (preferred_hit pt) ct) + sum_list (map (frequency_weight pos') ct))
                / real (length ct)"
    by (simp add: divide_right_mono)
  then have "min ((sum_list (map (preferred_hit pt) ct) + sum_list (map (frequency_weight pos) ct))
                / real (length ct)) 1
             \<le> min ((sum_list (map (preferred_hit pt) ct) + sum_list (map (frequency_weight pos') ct))
                / real (length ct)) 1"
    by (rule min.mono) simp
  then show ?thesis using False by (simp add: calculate_topic_score_eq)
qed

lemma positive_counter_add:
  "positive_counter pos u \<le> positive_counter (pos @ [h]) u"
  by (simp add: positive_counter_def)

text \<open>
  Claim C8.  The topic score lies in \<open>[0, 1]\<close>.  It does not decrease when a course topic
  that matches no preferred topic is replaced by one that matches a preferred topic
  (lowercase comparison), nor when the positive-history list gains occurrences, so that
  the count of every course topic is at least what it was (in particular when one more
  topic is appended to the history).  A course topic counted \<open>n > 0\<close> times in the lowercased
  history contributes \<open>min (n / 3) 0.8\<close>, and the sum of all contributions is divided by the
  number of course topics and capped at 1.
\<close>

theorem calculate_topic_score_range_monotone:
  "0 \<le> calculate_topic_score ct pt pos \<and> calculate_topic_score ct pt pos \<le> 1
   \<and> (py_lower t \<notin> set (map py_lower pt) \<and> py_lower t' \<in> set (map py_lower pt)
        \<longrightarrow> calculate_topic_score (xs @ t # ys) pt pos
              \<le> calculate_topic_score (xs @ t' # ys) pt pos)
   \<and> ((\<forall>u \<in> set ct. positive_counter pos (py_lower u) \<le> positive_counter pos' (py_lower u))
        \<longrightarrow> calculate_topic_score ct pt pos \<le> calculate_topic_score ct pt pos')
   \<and> calculate_topic_score ct pt pos \<le> calculate_topic_score ct pt (pos @ [h])
   \<and> (0 < positive_counter pos (py_lower u)
        \<longrightarrow> frequency_weight pos u = min (real (positive_counter pos (py_lower u)) / 3) 0.8)
   \<and> (ct \<noteq> [] \<longrightarrow> calculate_topic_score ct pt pos =
         min ((sum_list (map (preferred_hit pt) ct) + sum_list (map (frequency_weight pos) ct))
              / real (length ct)) 1)"
proof -
  have "calculate_topic_score ct pt pos \<le> calculate_topic_score ct pt (pos @ [h])"
    by (rule calculate_topic_score_history_mono) (simp add: positive_counter_add)
  then show ?thesis
    using calculate_topic_score_range [of ct pt pos]
      calculate_topic_score_replace [of t pt t' xs ys pos]
      calculate_topic_score_history_mono [of ct pos pos' pt]
    by (simp add: calculate_topic_score_eq frequency_weight_def Let_def)
qed

theorem calculate_topic_score_range_monotone_witness:
  "calculate_topic_score [''python'', ''fundamentals''] [''Python'', ''data science''] [] = 1 / 2
   \<and> calculate_topic_score [''python'', ''Data Science''] [''Python'', ''data science''] [] = 1
   \<and> calculate_topic_score ([''python''] @ ''fundamentals'' # []) [''Python'', ''data science''] []
       \<le> calculate_topic_score ([''python''] @ ''Data Science'' # []) [''Python'', ''data science''] []
   \<and> calculate_topic_score [''python'', ''fundamentals''] [''Python'', ''data science'']
         ([] @ [''Fundamentals'']) = 2 / 3
   \<and> calculate_topic_score [''python'', ''fundamentals''] [''Python'', ''data science''] []
       \<le> calculate_topic_score [''python'', ''fundamentals''] [''Python'', ''data science'']
            ([] @ [''Fundamentals''])
   \<and> frequency_weight [''Go'', ''go'', ''GO''] ''go'' = 4 / 5"
proof -
  have e1: "calculate_topic_score [''python'', ''fundamentals''] [''Python'', ''data science''] []
              = 1 / 2"
    by code_simp
  have e2: "calculate_topic_score [''python'', ''Data Science''] [''Python'', ''data science''] []
              = 1"
    by code_simp
  have e3: "calculate_topic_score [''python'', ''fundamentals''] [''Python'', ''data science'']
              ([] @ [''Fundamentals'']) = 2 / 3"
    by code_simp
  have e4: "frequency_weight [''Go'', ''go'', ''GO''] ''go'' = 4 / 5"
    by code_simp
  have h1: "py_lower ''fundamentals'' \<notin> set (map py_lower [''Python'', ''data science''])"
    by code_simp
  have h2: "py_lower ''Data Science'' \<in> set (map py_lower [''Python'', ''data science''])"
    by code_simp
  note main = calculate_topic_score_range_monotone
    [of "[''python'', ''fundamentals'']" "[''Python'', ''data science'']" "[]"
        "''fundamentals''" "''Data Science''" "[''python'']" "[]" "[''Fundamentals'']"
        "''Fundamentals''" "''go''"]
  have m1: "calculate_topic_score ([''python''] @ ''fundamentals'' # [])
               [''Python'', ''data science''] []
            \<le> calculate_topic_score ([''python''] @ ''Data Science'' # [])
               [''Python'', ''data science''] []"
    by (rule mp [OF main [THEN conjunct2, THEN conjunct2, THEN conjunct1]])
       (rule conjI [OF h1 h2])
  have m2: "calculate_topic_score [''python'', ''fundamentals''] [''Python'', ''data science''] []
       \<le> calculate_topic_score [''python'', ''fundamentals''] [''Python'', ''data science'']
            ([] @ [''Fundamentals''])"
    by (rule main [THEN conjunct2, THEN conjunct2, THEN conjunct2, THEN conjunct2,
          THEN conjunct1])
  show ?thesis by (intro conjI e1 e2 m1 e3 m2 e4)
qed


section \<open>Properties of the composite score\<close>







section \<open>Properties of the ranking\<close>

lemma py_sort_reverse_sorted:
  "sorted_wrt (\<lambda>a b. key b \<le> key a) (py_sort_reverse key xs)"
proof -
  have "sorted (map key (sort_key key (rev xs)))" by (rule sorted_sort_key)
  then have "sorted_wrt (\<lambda>a b. key a \<le> key b) (sort_key key (rev xs))"
    by (simp add: sorted_wrt_map)
  then show ?thesis by (simp add: py_sort_reverse_def sorted_wrt_rev)
qed

lemma py_sort_reverse_stable:
  "filter (\<lambda>x. key x = k) (py_sort_reverse key xs) = filter (\<lambda>x. key x = k) xs"
  by (simp add: py_sort_reverse_def rev_filter [symmetric] sort_key_stable)

lemma py_sort_reverse_set: "set (py_sort_reverse key xs) = set xs"
  by (simp add: py_sort_reverse_def)

lemma py_sort_reverse_length: "length (py_sort_reverse key xs) = length xs"
  by (simp add: py_sort_reverse_def)

lemma sorted_wrt_py_slice_to:
  "sorted_wrt P xs \<Longrightarrow> sorted_wrt P (py_slice_to n xs)"
  by (simp add: py_slice_to_def sorted_wrt_take)

lemma map_raise_fst:
  "map_raise f xs = Inr ys \<Longrightarrow> (\<And>x y. f x = Inr y \<Longrightarrow> fst y = x) \<Longrightarrow> map fst ys = xs"
proof (induction xs arbitrary: ys)
  case Nil
  then show ?case by simp
next
  case (Cons x xs)
  then show ?case by (auto split: sum.splits)
qed

lemma score_courses_fst:
  assumes "score_courses lookup ctx courses = Inr scored"
  shows "map fst scored = courses"
proof -
  have a: "\<And>x y. score_without_context x = Inr y \<Longrightarrow> fst y = x"
    by (auto simp: score_without_context_def split: sum.splits)
  have b: "\<And>p pos x y. score_with_context p pos x = Inr y \<Longrightarrow> fst y = x"
    by (auto simp: score_with_context_def Let_def split: sum.splits)
  have c: "\<And>x y. score_rating_only x = Inr y \<Longrightarrow> fst y = x"
    by (auto simp: score_rating_only_def split: sum.splits)
  show ?thesis
    using assms
    by (auto simp: score_courses_def score_courses_try_def
             split: sum.splits option.splits
             dest: map_raise_fst [OF _ a] map_raise_fst [OF _ b] map_raise_fst [OF _ c])
qed

text \<open>
  Claim C2.  Whenever the scorer returns for a fused candidate list, its output holds the
  scored candidates of the input, each once, in non-increasing order of score, and the
  candidates of any one score stand in the order the input had them: the sort is stable.
  The same holds for the truncated list \<open>scored_courses[:max_results]\<close>, which is a sorted
  prefix.
\<close>

theorem rank_courses_sorted_stable:
  "rank_courses lookup ctx courses = Inr ranked \<longrightarrow>
     (\<exists>scored. score_courses lookup ctx courses = Inr scored
        \<and> map fst scored = courses
        \<and> length ranked = length courses
        \<and> set ranked = set scored
        \<and> sorted_wrt (\<lambda>a b. snd b \<le> snd a) ranked
        \<and> (\<forall>k. filter (\<lambda>p. snd p = k) ranked = filter (\<lambda>p. snd p = k) scored)
        \<and> sorted_wrt (\<lambda>a b. snd b \<le> snd a) (py_slice_to max_results ranked))"
proof
  assume r: "rank_courses lookup ctx courses = Inr ranked"
  then obtain scored where s: "score_courses lookup ctx courses = Inr scored"
    and k: "ranked = py_sort_reverse snd scored"
    by (auto simp: rank_courses_def split: sum.splits)
  have f: "map fst scored = courses" using s by (rule score_courses_fst)
  then have l: "length scored = length courses" by (metis length_map)
  show "\<exists>scored. score_courses lookup ctx courses = Inr scored
        \<and> map fst scored = courses
        \<and> length ranked = length courses
        \<and> set ranked = set scored
        \<and> sorted_wrt (\<lambda>a b. snd b \<le> snd a) ranked
        \<and> (\<forall>k. filter (\<lambda>p. snd p = k) ranked = filter (\<lambda>p. snd p = k) scored)
        \<and> sorted_wrt (\<lambda>a b. snd b \<le> snd a) (py_slice_to max_results ranked)"
    using s f l k
    by (auto simp: py_sort_reverse_sorted py_sort_reverse_stable py_sort_reverse_set
          py_sort_reverse_length sorted_wrt_py_slice_to)
qed

theorem rank_courses_sorted_stable_witness:
  "rank_courses (\<lambda>i. Inr None) None [demo_a, demo_b, demo_c]
     = Inr [(demo_b, 4 / 5), (demo_a, 3 / 5), (demo_c, 3 / 5)]
   \<and> (\<exists>scored. score_courses (\<lambda>i. Inr None) None [demo_a, demo_b, demo_c] = Inr scored
        \<and> map fst scored = [demo_a, demo_b, demo_c]
        \<and> filter (\<lambda>p. snd p = 3 / 5) [(demo_b, 4 / 5), (demo_a, 3 / 5), (demo_c, 3 / 5)]
            = filter (\<lambda>p. snd p = 3 / 5) scored)"
proof -
  have e: "rank_courses (\<lambda>i. Inr None) None [demo_a, demo_b, demo_c]
     = Inr [(demo_b, 4 / 5), (demo_a, 3 / 5), (demo_c, 3 / 5)]"
    by code_simp
  from mp [OF rank_courses_sorted_stable [of "\<lambda>i. Inr None" None "[demo_a, demo_b, demo_c]" _ 2] e]
  obtain scored where
    f1: "score_courses (\<lambda>i. Inr None) None [demo_a, demo_b, demo_c] = Inr scored" and
    f2: "map fst scored = [demo_a, demo_b, demo_c]" and
    f3: "\<forall>k. filter (\<lambda>p. snd p = k) [(demo_b, 4 / 5), (demo_a, 3 / 5), (demo_c, 3 / 5)]
            = filter (\<lambda>p. snd p = k) scored"
    by (elim exE conjE) (rule that, assumption+)
  show ?thesis
    by (intro conjI e exI [of _ scored] f1 f2 f3 [THEN spec])
qed


section \<open>Properties of the cache key\<close>

declare str_nat.simps [simp del]

lemma digit_in: "n < 10 \<Longrightarrow> ascii_digits ! n \<in> set ascii_digits"
  by (rule nth_mem) (simp add: ascii_digits_def)

lemma digit_inj:
  "n < 10 \<Longrightarrow> m < 10 \<Longrightarrow> ascii_digits ! n = ascii_digits ! m \<Longrightarrow> n = m"
proof -
  assume a: "n < 10" "m < 10" "ascii_digits ! n = ascii_digits ! m"
  have "distinct ascii_digits" by (simp add: ascii_digits_def)
  moreover have "length ascii_digits = 10" by (simp add: ascii_digits_def)
  ultimately show "n = m" using a by (simp add: nth_eq_iff_index_eq)
qed

lemma str_nat_chars: "set (str_nat n) \<subseteq> set ascii_digits"
proof (induction n rule: str_nat.induct)
  case (1 n)
  show ?case
  proof (cases "n < 10")
    case True
    then show ?thesis using digit_in [of n] by (subst str_nat.simps) simp
  next
    case False
    then show ?thesis
      using 1 digit_in [of "n mod 10"] by (subst str_nat.simps) simp
  qed
qed

lemma str_nat_length: "0 < length (str_nat n)"
  by (subst str_nat.simps) simp

lemma str_nat_inj: "str_nat n = str_nat m \<Longrightarrow> n = m"
proof (induction n arbitrary: m rule: str_nat.induct)
  case (1 n)
  show ?case
  proof (cases "n < 10")
    case n: True
    show ?thesis
    proof (cases "m < 10")
      case True
      with n "1.prems" show ?thesis
        by (simp add: str_nat.simps [of n] str_nat.simps [of m] digit_inj)
    next
      case False
      then have "length (str_nat m) = Suc (length (str_nat (m div 10)))"
        by (subst str_nat.simps) simp
      moreover have "length (str_nat n) = 1" using n by (subst str_nat.simps) simp
      ultimately show ?thesis using "1.prems" str_nat_length [of "m div 10"] by simp
    qed
  next
    case n: False
    show ?thesis
    proof (cases "m < 10")
      case True
      then have "length (str_nat m) = 1" by (subst str_nat.simps) simp
      moreover have "length (str_nat n) = Suc (length (str_nat (n div 10)))"
        using n by (subst str_nat.simps) simp
      ultimately show ?thesis using "1.prems" str_nat_length [of "n div 10"] by simp
    next
      case False
      with n "1.prems" have
        "str_nat (n div 10) @ [ascii_digits ! (n mod 10)]
           = str_nat (m div 10) @ [ascii_digits ! (m mod 10)]"
        by (simp add: str_nat.simps [of n] str_nat.simps [of m])
      then have a: "str_nat (n div 10) = str_nat (m div 10)"
        and b: "ascii_digits ! (n mod 10) = ascii_digits ! (m mod 10)"
        by simp_all
      from a n have "n div 10 = m div 10" by (rule "1.IH" [rotated])
      moreover from b have "n mod 10 = m mod 10" by (simp add: digit_inj)
      ultimately show ?thesis by (metis div_mult_mod_eq)
    qed
  qed
qed

lemma str_int_chars: "set (str_int i) \<subseteq> set (CHR ''-'' # ascii_digits)"
  using str_nat_chars by (auto simp: str_int_def)

lemma underscore_not_in_str_int: "CHR ''_'' \<notin> set (str_int i)"
  using str_int_chars [of i] by (auto simp: ascii_digits_def)

lemma minus_not_head_str_nat: "hd (str_nat n) \<noteq> CHR ''-''"
proof -
  have "hd (str_nat n) \<in> set (str_nat n)" using str_nat_length [of n] by simp
  then have "hd (str_nat n) \<in> set ascii_digits" using str_nat_chars by blast
  then show ?thesis by (auto simp: ascii_digits_def)
qed

lemma str_int_inj: "str_int i = str_int j \<Longrightarrow> i = j"
proof -
  assume e: "str_int i = str_int j"
  show "i = j"
  proof (cases "i < 0"; cases "j < 0")
    assume "i < 0" "j < 0"
    with e have "nat (- i) = nat (- j)" by (simp add: str_int_def str_nat_inj)
    with \<open>i < 0\<close> \<open>j < 0\<close> show ?thesis by simp
  next
    assume "i < 0" "\<not> j < 0"
    with e have "hd (str_nat (nat j)) = CHR ''-''"
      by (simp add: str_int_def) (metis list.sel(1))
    then show ?thesis using minus_not_head_str_nat by blast
  next
    assume "\<not> i < 0" "j < 0"
    with e have "hd (str_nat (nat i)) = CHR ''-''" by (simp add: str_int_def)
    then show ?thesis using minus_not_head_str_nat by blast
  next
    assume "\<not> i < 0" "\<not> j < 0"
    with e have "nat i = nat j" by (simp add: str_int_def str_nat_inj)
    with \<open>\<not> i < 0\<close> \<open>\<not> j < 0\<close> show ?thesis by simp
  qed
qed

lemma split_at_separator:
  "a @ c # b = a' @ c # b' \<Longrightarrow> c \<notin> set a \<Longrightarrow> c \<notin> set a' \<Longrightarrow> a = a' \<and> b = b'"
proof (induction a arbitrary: a')
  case Nil
  then show ?case by (cases a') auto
next
  case (Cons x a)
  then show ?case by (cases a') auto
qed

lemma cache_key_eq_iff:
  "cache_key h u q n = cache_key h u' q' n' \<longleftrightarrow>
     u = u' \<and> h (str_query q) = h (str_query q') \<and> n = n'"
proof
  assume "cache_key h u q n = cache_key h u' q' n'"
  then have "str_int u @ CHR ''_'' # (str_int (h (str_query q)) @ CHR ''_'' # str_int n)
           = str_int u' @ CHR ''_'' # (str_int (h (str_query q')) @ CHR ''_'' # str_int n')"
    by (simp add: cache_key_def)
  then have ab: "str_int u = str_int u' \<and>
      str_int (h (str_query q)) @ CHR ''_'' # str_int n
           = str_int (h (str_query q')) @ CHR ''_'' # str_int n'"
    by (rule split_at_separator) (rule underscore_not_in_str_int)+
  then have a: "str_int u = str_int u'" by (rule conjunct1)
  from ab have "str_int (h (str_query q)) @ CHR ''_'' # str_int n
           = str_int (h (str_query q')) @ CHR ''_'' # str_int n'"
    by (rule conjunct2)
  then have bc: "str_int (h (str_query q)) = str_int (h (str_query q')) \<and> str_int n = str_int n'"
    by (rule split_at_separator) (rule underscore_not_in_str_int)+
  then have b: "str_int (h (str_query q)) = str_int (h (str_query q'))"
    and c: "str_int n = str_int n'"
    by simp_all
  from a b c show "u = u' \<and> h (str_query q) = h (str_query q') \<and> n = n'"
    by (simp add: str_int_inj)
next
  assume "u = u' \<and> h (str_query q) = h (str_query q') \<and> n = n'"
  then show "cache_key h u q n = cache_key h u' q' n'" by (simp add: cache_key_def)
qed

text \<open>
  Claim C5, as the code has it.  Two requests get the same cache key exactly when they
  agree on the user id, on the result count and on \<open>hash(str(query))\<close>.  So requests that
  differ in the user id or in the result count never collide, and requests with the same
  query never differ; but the key sees the query only through \<open>hash(str(query))\<close>: an
  absent query is keyed as the text \<open>None\<close>, and two query texts of equal hash share a key.
\<close>

theorem cache_key_injective_up_to_hash:
  "(cache_key py_hash u q n = cache_key py_hash u' q' n' \<longleftrightarrow>
      u = u' \<and> py_hash (str_query q) = py_hash (str_query q') \<and> n = n')
   \<and> str_query None = str_query (Some ''None'')"
  by (simp add: cache_key_eq_iff str_query_def)

text \<open>The collision of the absent query with the query text \<open>None\<close>, for every hash
  function.\<close>

theorem cache_key_absent_query_collides:
  "(\<forall>py_hash. cache_key py_hash 1 None 10 = cache_key py_hash 1 (Some ''None'') 10)
   \<and> (None :: string option) \<noteq> Some ''None''"
  by (simp add: cache_key_def str_query_def)

theorem cache_key_injective_up_to_hash_witness:
  "cache_key (\<lambda>s. int (length s)) 1 None 10 \<noteq> cache_key (\<lambda>s. int (length s)) 2 None 10
   \<and> cache_key (\<lambda>s. int (length s)) 1 None 10 \<noteq> cache_key (\<lambda>s. int (length s)) 1 None 20
   \<and> cache_key (\<lambda>s. int (length s)) 1 (Some ''java'') 10
       = cache_key (\<lambda>s. int (length s)) 1 (Some ''rust'') 10"
  using cache_key_injective_up_to_hash [of "\<lambda>s. int (length s)" 1 None 10 2 None 10]
    cache_key_injective_up_to_hash [of "\<lambda>s. int (length s)" 1 None 10 1 None 20]
    cache_key_injective_up_to_hash [of "\<lambda>s. int (length s)" 1 "Some ''java''" 10 1 "Some ''rust''" 10]
  by (simp add: str_query_def)


section \<open>Properties of the candidate fusion\<close>

subsection \<open>The loops in closed form\<close>

lemma course_id_with_source: "course_id (with_source p c) = course_id c"
  by (simp add: with_source_def)

lemma source_with_source: "source (with_source p c) = Some p"
  by (simp add: with_source_def)

lemma with_source_idem: "with_source p (with_source p c) = with_source p c"
  by (simp add: with_source_def)

lemma with_source_last: "with_source p (with_source q c) = with_source p c"
  by (simp add: with_source_def)

lemma vector_similarity_with_source:
  "vector_similarity (with_source p c) = vector_similarity c"
  by (simp add: with_source_def)

lemma course_id_set_source: "course_id (set_source p a h b) = course_id (h b)"
  by (simp add: set_source_def course_id_with_source)

lemma tag_refs_set_source: "tag_refs p as (set_source p a h) = tag_refs p (a # as) h"
  by (auto simp: tag_refs_def set_source_def fun_eq_iff with_source_idem)

lemma course_id_tag_refs: "course_id (tag_refs p as h a) = course_id (h a)"
  by (simp add: tag_refs_def course_id_with_source)

lemma combine_vector_eq:
  "combine_vector d h vs = (upd_all (\<lambda>a. course_id (h a)) d vs, tag_refs Vector vs h)"
proof (induction vs arbitrary: d h)
  case Nil
  show ?case by (simp add: tag_refs_def)
next
  case (Cons course vs)
  have k: "(\<lambda>a. course_id (set_source Vector course h a)) = (\<lambda>a. course_id (h a))"
    by (simp add: course_id_set_source)
  show ?case
    by (simp add: Cons.IH k tag_refs_set_source Let_def)
qed

lemma update_new_key: "k \<notin> set (map fst d) \<Longrightarrow> AList.update k v d = d @ [(k, v)]"
  by (induction d) auto

lemma combine_content_eq:
  "combine_content d h cs =
     (d @ new_entries (\<lambda>a. course_id (h a)) (map fst d) cs,
      tag_refs Content (map snd (new_entries (\<lambda>a. course_id (h a)) (map fst d) cs)) h)"
proof (induction cs arbitrary: d h)
  case Nil
  show ?case by (simp add: tag_refs_def)
next
  case (Cons course cs)
  have k: "(\<lambda>a. course_id (set_source Content course h a)) = (\<lambda>a. course_id (h a))"
    by (simp add: course_id_set_source)
  show ?case
  proof (cases "course_id (h course) \<in> set (map fst d)")
    case True
    then show ?thesis by (simp add: Cons.IH Let_def)
  next
    case False
    then show ?thesis
      by (simp add: Cons.IH k tag_refs_set_source Let_def update_new_key del: AList.update.simps)
  qed
qed

lemma combine_recommendations_eq:
  "combine_recommendations h vs cs =
     (let k = (\<lambda>a. course_id (h a));
          d = upd_all k [] vs;
          news = new_entries k (map fst d) cs
      in (tag_refs Content (map snd news) (tag_refs Vector vs h), map snd (d @ news)))"
proof -
  have k: "(\<lambda>a. course_id (tag_refs Vector vs h a)) = (\<lambda>a. course_id (h a))"
    by (simp add: course_id_tag_refs)
  show ?thesis
    by (simp add: combine_recommendations_def combine_vector_eq combine_content_eq k Let_def)
qed

subsection \<open>The entries of the dictionary\<close>

lemma upd_all_distinct: "distinct (map fst d) \<Longrightarrow> distinct (map fst (upd_all k d as))"
  by (induction as arbitrary: d) (simp_all add: distinct_update del: AList.update.simps)

lemma upd_all_keys: "set (map fst (upd_all k d as)) = set (map fst d) \<union> k ` set as"
proof (induction as arbitrary: d)
  case Nil
  show ?case by simp
next
  case (Cons a as)
  have "fst ` set (AList.update (k a) a d) = {k a} \<union> fst ` set d" by (rule dom_update)
  then show ?case using Cons.IH [of "AList.update (k a) a d"] by auto
qed

lemma find_append_case:
  "find P (xs @ ys) = (case find P xs of None \<Rightarrow> find P ys | Some x \<Rightarrow> Some x)"
  by (induction xs) auto

lemma upd_all_map_of:
  "map_of (upd_all k d as) i =
     (case find (\<lambda>x. k x = i) (rev as) of None \<Rightarrow> map_of d i | Some a \<Rightarrow> Some a)"
proof (induction as arbitrary: d)
  case Nil
  show ?case by simp
next
  case (Cons a as)
  show ?case
    by (simp add: Cons.IH update_conv' find_append_case split: option.splits del: AList.update.simps)
qed

lemma upd_all_fresh:
  "distinct (map k as) \<Longrightarrow> k ` set as \<inter> set (map fst d) = {} \<Longrightarrow>
     upd_all k d as = d @ map (\<lambda>a. (k a, a)) as"
proof (induction as arbitrary: d)
  case Nil
  show ?case by simp
next
  case (Cons a as)
  from Cons.prems have n: "k a \<notin> set (map fst d)" by auto
  have "upd_all k (d @ [(k a, a)]) as = (d @ [(k a, a)]) @ map (\<lambda>a. (k a, a)) as"
    by (rule Cons.IH) (use Cons.prems in auto)
  then show ?case using n by (simp add: update_new_key del: AList.update.simps)
qed

lemma upd_all_entry:
  "(i, a) \<in> set (upd_all k [] as) \<longleftrightarrow> find (\<lambda>x. k x = i) (rev as) = Some a"
proof -
  have "distinct (map fst (upd_all k [] as))" by (rule upd_all_distinct) simp
  then have "(i, a) \<in> set (upd_all k [] as) \<longleftrightarrow> map_of (upd_all k [] as) i = Some a"
    by simp
  then show ?thesis by (simp add: upd_all_map_of split: option.splits)
qed

lemma new_entries_keys:
  "set (map fst (new_entries k seen cs)) = k ` set cs - set seen
   \<and> distinct (map fst (new_entries k seen cs))"
  by (induction cs arbitrary: seen) auto

lemma new_entries_entry:
  "(i, c) \<in> set (new_entries k seen cs) \<longleftrightarrow>
     i \<notin> set seen \<and> find (\<lambda>x. k x = i) cs = Some c"
proof (induction cs arbitrary: seen)
  case Nil
  show ?case by simp
next
  case (Cons a cs)
  show ?case by (auto simp: Cons.IH)
qed

lemma new_entries_none: "k ` set cs \<subseteq> set seen \<Longrightarrow> new_entries k seen cs = []"
  by (induction cs arbitrary: seen) auto

lemma new_entries_fresh:
  "distinct (map k cs) \<Longrightarrow> k ` set cs \<inter> set seen = {} \<Longrightarrow>
     new_entries k seen cs = map (\<lambda>c. (k c, c)) cs"
  by (induction cs arbitrary: seen) auto

lemma new_entries_cong:
  "(\<And>c. c \<in> set cs \<Longrightarrow> k c = k' c) \<Longrightarrow> new_entries k seen cs = new_entries k' seen cs"
  by (induction cs arbitrary: seen) auto

lemma upd_all_cong:
  "(\<And>a. a \<in> set as \<Longrightarrow> k a = k' a) \<Longrightarrow> upd_all k d as = upd_all k' d as"
  by (induction as arbitrary: d) auto


subsection \<open>The fused list\<close>

lemma find_map_option:
  "find P (map f xs) = map_option f (find (\<lambda>x. P (f x)) xs)"
  by (induction xs) auto

lemma find_Some_mem: "find P xs = Some x \<Longrightarrow> x \<in> set xs \<and> P x"
  by (induction xs) (auto split: if_splits)

lemma find_mem_ex: "x \<in> set xs \<Longrightarrow> P x \<Longrightarrow> \<exists>y. find P xs = Some y"
  by (induction xs) auto

lemma find_distinct_key:
  "distinct (map k xs) \<Longrightarrow> x \<in> set xs \<Longrightarrow> find (\<lambda>y. k y = k x) xs = Some x"
  by (induction xs) (auto simp: image_iff)

text \<open>The facts about one call, with the dictionary after the first loop (\<open>d\<close>) and the
  entries the second loop adds (\<open>news\<close>) made explicit.\<close>

lemma fusion_facts:
  assumes run: "combine_recommendations h vs cs = (h', out)"
  defines "k \<equiv> (\<lambda>a. course_id (h a))"
  defines "d \<equiv> upd_all k [] vs"
  defines "news \<equiv> new_entries k (map fst d) cs"
  shows "out = map snd d @ map snd news"
    and "h' = tag_refs Content (map snd news) (tag_refs Vector vs h)"
    and "distinct (map fst d)" and "set (map fst d) = k ` set vs"
    and "distinct (map fst news)" and "set (map fst news) = k ` set cs - k ` set vs"
    and "\<And>i a. (i, a) \<in> set d \<longleftrightarrow> find (\<lambda>x. k x = i) (rev vs) = Some a"
    and "\<And>i c. (i, c) \<in> set news \<longleftrightarrow> i \<notin> k ` set vs \<and> find (\<lambda>x. k x = i) cs = Some c"
    and "\<And>a. course_id (h' a) = k a"
proof -
  from run show o: "out = map snd d @ map snd news"
    and h: "h' = tag_refs Content (map snd news) (tag_refs Vector vs h)"
    by (simp_all add: combine_recommendations_eq Let_def k_def d_def news_def)
  show "distinct (map fst d)" unfolding d_def by (rule upd_all_distinct) simp
  show dk: "set (map fst d) = k ` set vs"
    unfolding d_def using upd_all_keys [of k "[]" vs] by simp
  show "distinct (map fst news)"
    unfolding news_def using new_entries_keys [of k "map fst d" cs] by blast
  show "set (map fst news) = k ` set cs - k ` set vs"
    unfolding news_def using dk new_entries_keys [of k "map fst d" cs] by simp
  show "\<And>i a. (i, a) \<in> set d \<longleftrightarrow> find (\<lambda>x. k x = i) (rev vs) = Some a"
    unfolding d_def by (rule upd_all_entry)
  show "\<And>i c. (i, c) \<in> set news \<longleftrightarrow> i \<notin> k ` set vs \<and> find (\<lambda>x. k x = i) cs = Some c"
    unfolding news_def using dk new_entries_entry [of _ _ k "map fst d" cs] by simp
  show "\<And>a. course_id (h' a) = k a"
    by (simp add: h course_id_tag_refs k_def)
qed

lemma upd_all_entryD:
  assumes "(i, a) \<in> set (upd_all k [] as)"
  shows "k a = i \<and> a \<in> set as"
proof -
  from assms have "find (\<lambda>x. k x = i) (rev as) = Some a"
    using upd_all_entry [of i a k as] by blast
  from find_Some_mem [OF this] show ?thesis by simp
qed

lemma new_entries_entryD:
  assumes "(i, c) \<in> set (new_entries k seen cs)"
  shows "k c = i \<and> c \<in> set cs \<and> i \<notin> set seen"
proof -
  from assms have a: "i \<notin> set seen" and b: "find (\<lambda>x. k x = i) cs = Some c"
    using new_entries_entry [of i c k seen cs] by blast+
  from find_Some_mem [OF b] a show ?thesis by simp
qed

text \<open>Where each output reference comes from, and what the heap holds for it.\<close>

lemma fusion_output_iff:
  assumes run: "combine_recommendations h vs cs = (h', out)"
  shows "b \<in> set out \<longleftrightarrow>
           find (\<lambda>x. course_id (h x) = course_id (h b)) (rev vs) = Some b
         \<or> (course_id (h b) \<notin> (\<lambda>a. course_id (h a)) ` set vs
            \<and> find (\<lambda>x. course_id (h x) = course_id (h b)) cs = Some b)"
    (is "?L \<longleftrightarrow> ?V \<or> ?C")
proof
  let ?k = "\<lambda>a. course_id (h a)"
  let ?d = "upd_all ?k [] vs"
  let ?news = "new_entries ?k (map fst ?d) cs"
  note f = fusion_facts [OF run]
  assume ?L
  then have "b \<in> snd ` set ?d \<or> b \<in> snd ` set ?news" by (simp add: f(1) image_Un)
  then show "?V \<or> ?C"
  proof
    assume "b \<in> snd ` set ?d"
    then obtain i where e: "(i, b) \<in> set ?d" by force
    then have "?k b = i" using upd_all_entryD by blast
    with e have "(?k b, b) \<in> set ?d" by simp
    then have ?V using f(7) [of "?k b" b] by blast
    then show ?thesis ..
  next
    assume "b \<in> snd ` set ?news"
    then obtain i where e: "(i, b) \<in> set ?news" by force
    then have "?k b = i" using new_entries_entryD by blast
    with e have "(?k b, b) \<in> set ?news" by simp
    then have ?C using f(8) [of "?k b" b] by blast
    then show ?thesis ..
  qed
next
  let ?k = "\<lambda>a. course_id (h a)"
  let ?d = "upd_all ?k [] vs"
  let ?news = "new_entries ?k (map fst ?d) cs"
  note f = fusion_facts [OF run]
  assume "?V \<or> ?C"
  then have "(?k b, b) \<in> set ?d \<or> (?k b, b) \<in> set ?news"
    using f(7) [of "?k b" b] f(8) [of "?k b" b] by blast
  then have "b \<in> snd ` set ?d \<or> b \<in> snd ` set ?news" by force
  then show ?L by (simp add: f(1) image_Un)
qed

lemma fusion_heap:
  assumes run: "combine_recommendations h vs cs = (h', out)"
  shows "b \<in> set vs \<Longrightarrow> h' b = with_source Vector (h b)"
    and "b \<in> set out \<Longrightarrow> b \<notin> set vs \<Longrightarrow> h' b = with_source Content (h b)"
proof -
  let ?k = "\<lambda>a. course_id (h a)"
  let ?d = "upd_all ?k [] vs"
  let ?news = "new_entries ?k (map fst ?d) cs"
  note f = fusion_facts [OF run]
  have newnot: "c \<notin> set vs" if "c \<in> snd ` set ?news" for c
  proof -
    from that obtain i where "(i, c) \<in> set ?news" by force
    then have "?k c = i" and "i \<notin> set (map fst ?d)" using new_entries_entryD by blast+
    then have "?k c \<notin> set (map fst ?d)" by simp
    then have "?k c \<notin> ?k ` set vs" unfolding f(4) .
    then show ?thesis by blast
  qed
  show "h' b = with_source Vector (h b)" if "b \<in> set vs"
  proof -
    have "b \<notin> snd ` set ?news" using newnot that by blast
    with that show ?thesis by (simp add: f(2) tag_refs_def)
  qed
  show "h' b = with_source Content (h b)" if "b \<in> set out" "b \<notin> set vs"
  proof -
    from that(1) have "b \<in> snd ` set ?d \<or> b \<in> snd ` set ?news"
      by (simp add: f(1) image_Un)
    moreover have "b \<notin> snd ` set ?d"
    proof
      assume "b \<in> snd ` set ?d"
      then obtain i where "(i, b) \<in> set ?d" by force
      then have "b \<in> set vs" using upd_all_entryD by blast
      with that(2) show False by simp
    qed
    ultimately have "b \<in> snd ` set ?news" by simp
    with that(2) show ?thesis by (simp add: f(2) tag_refs_def)
  qed
qed

lemma fusion_distinct:
  assumes run: "combine_recommendations h vs cs = (h', out)"
  shows "distinct (map (\<lambda>a. course_id (h a)) out)"
proof -
  let ?k = "\<lambda>a. course_id (h a)"
  let ?d = "upd_all ?k [] vs"
  let ?news = "new_entries ?k (map fst ?d) cs"
  note f = fusion_facts [OF run]
  have "\<forall>e \<in> set ?d. (?k \<circ> snd) e = fst e"
  proof
    fix e assume "e \<in> set ?d"
    then have "(fst e, snd e) \<in> set ?d" by simp
    from upd_all_entryD [OF this] show "(?k \<circ> snd) e = fst e" by simp
  qed
  then have "map (?k \<circ> snd) ?d = map fst ?d" by (simp only: map_eq_conv)
  then have a: "map ?k (map snd ?d) = map fst ?d" by (simp only: map_map)
  have "\<forall>e \<in> set ?news. (?k \<circ> snd) e = fst e"
  proof
    fix e assume "e \<in> set ?news"
    then have "(fst e, snd e) \<in> set ?news" by simp
    from new_entries_entryD [OF this] show "(?k \<circ> snd) e = fst e" by simp
  qed
  then have "map (?k \<circ> snd) ?news = map fst ?news" by (simp only: map_eq_conv)
  then have b: "map ?k (map snd ?news) = map fst ?news" by (simp only: map_map)
  have c: "set (map fst ?d) \<inter> set (map fst ?news) = {}"
    unfolding f(4) f(6) by blast
  have "map ?k out = map ?k (map snd ?d) @ map ?k (map snd ?news)"
    unfolding f(1) by (rule map_append)
  then have "map ?k out = map fst ?d @ map fst ?news" unfolding a b .
  then show ?thesis using f(3) f(5) c by (simp only: distinct_append)
qed


subsection \<open>Fusion: every identifier once, the vector record first\<close>

lemma fusion_vector_appears:
  assumes run: "combine_recommendations h vs cs = (h', out)" and a: "a \<in> set vs"
  shows "\<exists>b \<in> set out. course_id (h' b) = course_id (h a) \<and> source (h' b) = Some Vector"
proof -
  let ?k = "\<lambda>a. course_id (h a)"
  from a have "a \<in> set (rev vs)" by simp
  from find_mem_ex [OF this, of "\<lambda>x. ?k x = ?k a"]
  obtain b where f: "find (\<lambda>x. ?k x = ?k a) (rev vs) = Some b" by blast
  from find_Some_mem [OF f] have b: "b \<in> set vs" and kb: "?k b = ?k a" by simp_all
  from f kb have "find (\<lambda>x. ?k x = ?k b) (rev vs) = Some b" by simp
  then have o: "b \<in> set out" using fusion_output_iff [OF run, of b] by blast
  have hb: "h' b = with_source Vector (h b)" using fusion_heap(1) [OF run b] .
  have "course_id (h' b) = ?k a" using kb by (simp add: hb course_id_with_source)
  moreover have "source (h' b) = Some Vector" by (simp add: hb source_with_source)
  ultimately show ?thesis using o by blast
qed

lemma fusion_content_appears:
  assumes run: "combine_recommendations h vs cs = (h', out)" and a: "a \<in> set cs"
  shows "(\<exists>b \<in> set out. course_id (h' b) = course_id (h a) \<and> source (h' b) = Some Content)
           \<longleftrightarrow> course_id (h a) \<notin> (\<lambda>x. course_id (h x)) ` set vs"
    (is "?L \<longleftrightarrow> ?R")
proof
  let ?k = "\<lambda>a. course_id (h a)"
  assume ?L
  then obtain b where o: "b \<in> set out" and i: "course_id (h' b) = ?k a"
    and s: "source (h' b) = Some Content" by blast
  have nb: "b \<notin> set vs"
  proof
    assume "b \<in> set vs"
    from fusion_heap(1) [OF run this] have "source (h' b) = Some Vector"
      by (simp add: source_with_source)
    with s show False by simp
  qed
  have "course_id (h' b) = ?k b" using fusion_facts(9) [OF run] .
  with i have kb: "?k b = ?k a" by simp
  from o have "find (\<lambda>x. ?k x = ?k b) (rev vs) = Some b
     \<or> (?k b \<notin> ?k ` set vs \<and> find (\<lambda>x. ?k x = ?k b) cs = Some b)"
    using fusion_output_iff [OF run, of b] by blast
  then show ?R
  proof
    assume "find (\<lambda>x. ?k x = ?k b) (rev vs) = Some b"
    from find_Some_mem [OF this] have "b \<in> set vs" by simp
    with nb show ?thesis by simp
  next
    assume "?k b \<notin> ?k ` set vs \<and> find (\<lambda>x. ?k x = ?k b) cs = Some b"
    then show ?thesis using kb by simp
  qed
next
  let ?k = "\<lambda>a. course_id (h a)"
  assume r: ?R
  from find_mem_ex [OF a, of "\<lambda>x. ?k x = ?k a"]
  obtain b where f: "find (\<lambda>x. ?k x = ?k a) cs = Some b" by blast
  from find_Some_mem [OF f] have kb: "?k b = ?k a" by simp
  from f kb r have "?k b \<notin> ?k ` set vs \<and> find (\<lambda>x. ?k x = ?k b) cs = Some b" by simp
  then have o: "b \<in> set out" using fusion_output_iff [OF run, of b] by blast
  have nb: "b \<notin> set vs"
  proof
    assume "b \<in> set vs"
    then have "?k b \<in> ?k ` set vs" by (rule imageI)
    with r kb show False by simp
  qed
  have hb: "h' b = with_source Content (h b)" using fusion_heap(2) [OF run o nb] .
  have "course_id (h' b) = ?k a" using kb by (simp add: hb course_id_with_source)
  moreover have "source (h' b) = Some Content" by (simp add: hb source_with_source)
  ultimately show ?L using o by blast
qed

lemma fusion_vector_record:
  assumes run: "combine_recommendations h vs cs = (h', out)" and o: "b \<in> set out"
    and i: "course_id (h' b) \<in> (\<lambda>x. course_id (h x)) ` set vs"
  shows "find (\<lambda>x. course_id (h x) = course_id (h' b)) (rev vs) = Some b
         \<and> h' b = with_source Vector (h b)"
proof -
  let ?k = "\<lambda>a. course_id (h a)"
  have e: "course_id (h' b) = ?k b" using fusion_facts(9) [OF run] .
  from o have "find (\<lambda>x. ?k x = ?k b) (rev vs) = Some b
     \<or> (?k b \<notin> ?k ` set vs \<and> find (\<lambda>x. ?k x = ?k b) cs = Some b)"
    using fusion_output_iff [OF run, of b] by blast
  with i e have f: "find (\<lambda>x. ?k x = ?k b) (rev vs) = Some b" by simp
  from find_Some_mem [OF f] have "b \<in> set vs" by simp
  from fusion_heap(1) [OF run this] have hb: "h' b = with_source Vector (h b)" .
  from f have "find (\<lambda>x. ?k x = course_id (h' b)) (rev vs) = Some b" by (simp only: e)
  then show ?thesis using hb by (rule conjI)
qed

lemma fusion_content_record:
  assumes run: "combine_recommendations h vs cs = (h', out)" and o: "b \<in> set out"
    and i: "course_id (h' b) \<notin> (\<lambda>x. course_id (h x)) ` set vs"
  shows "find (\<lambda>x. course_id (h x) = course_id (h' b)) cs = Some b
         \<and> h' b = with_source Content (h b)"
proof -
  let ?k = "\<lambda>a. course_id (h a)"
  have e: "course_id (h' b) = ?k b" using fusion_facts(9) [OF run] .
  have nb: "b \<notin> set vs"
  proof
    assume "b \<in> set vs"
    then have "?k b \<in> ?k ` set vs" by (rule imageI)
    with i e show False by simp
  qed
  from o have "find (\<lambda>x. ?k x = ?k b) (rev vs) = Some b
     \<or> (?k b \<notin> ?k ` set vs \<and> find (\<lambda>x. ?k x = ?k b) cs = Some b)"
    using fusion_output_iff [OF run, of b] by blast
  then have f: "find (\<lambda>x. ?k x = ?k b) cs = Some b"
  proof
    assume "find (\<lambda>x. ?k x = ?k b) (rev vs) = Some b"
    from find_Some_mem [OF this] have "b \<in> set vs" by simp
    with nb show ?thesis by simp
  next
    assume "?k b \<notin> ?k ` set vs \<and> find (\<lambda>x. ?k x = ?k b) cs = Some b"
    then show ?thesis by simp
  qed
  from fusion_heap(2) [OF run o nb] have hb: "h' b = with_source Content (h b)" .
  from f have "find (\<lambda>x. ?k x = course_id (h' b)) cs = Some b" by (simp only: e)
  then show ?thesis using hb by (rule conjI)
qed

lemma fusion_distinct_vector:
  assumes run: "combine_recommendations h vs cs = (h', out)"
    and d: "distinct (map (\<lambda>x. course_id (h x)) vs)" and a: "a \<in> set vs"
  shows "a \<in> set out \<and> h' a = with_source Vector (h a)"
proof -
  let ?k = "\<lambda>a. course_id (h a)"
  from d have "distinct (map ?k (rev vs))" by (simp add: rev_map [symmetric])
  moreover from a have "a \<in> set (rev vs)" by simp
  ultimately have "find (\<lambda>y. ?k y = ?k a) (rev vs) = Some a" by (rule find_distinct_key)
  then have "a \<in> set out" using fusion_output_iff [OF run, of a] by blast
  with fusion_heap(1) [OF run a] show ?thesis by simp
qed

text \<open>
  Claim C3.  Let \<open>V\<close> and \<open>C\<close> be the candidates of the vector list and of the content list
  before the call, and \<open>R\<close> the candidates of the returned list after it.  Then no
  identifier occurs twice in \<open>R\<close>; every vector candidate's identifier occurs in \<open>R\<close> on
  a record tagged \<open>vector\<close>; a content candidate's identifier occurs in \<open>R\<close> on a record
  tagged \<open>content\<close> exactly when it is absent from \<open>V\<close>; a record of \<open>R\<close> whose
  identifier is in \<open>V\<close> is the vector record of that identifier (the last one, should the
  vector list repeat it) with \<open>source\<close> set to \<open>vector\<close>, so with its similarity; a
  record whose identifier is not in \<open>V\<close> is the first content record of that identifier
  with \<open>source\<close> set to \<open>content\<close>; and when the vector list repeats no identifier, every
  vector candidate itself is in \<open>R\<close>, tagged \<open>vector\<close>.
\<close>

theorem combine_recommendations_fusion:
  "combine_recommendations h vs cs = (h', out) \<longrightarrow>
     distinct (map course_id (deref h' out))
   \<and> (\<forall>v \<in> set (deref h vs). \<exists>r \<in> set (deref h' out).
          course_id r = course_id v \<and> source r = Some Vector)
   \<and> (\<forall>c \<in> set (deref h cs).
          (\<exists>r \<in> set (deref h' out). course_id r = course_id c \<and> source r = Some Content)
            \<longleftrightarrow> course_id c \<notin> course_id ` set (deref h vs))
   \<and> (\<forall>r \<in> set (deref h' out). course_id r \<in> course_id ` set (deref h vs) \<longrightarrow>
          (\<exists>v. find (\<lambda>x. course_id x = course_id r) (rev (deref h vs)) = Some v
               \<and> r = with_source Vector v \<and> vector_similarity r = vector_similarity v))
   \<and> (\<forall>r \<in> set (deref h' out). course_id r \<notin> course_id ` set (deref h vs) \<longrightarrow>
          (\<exists>c. find (\<lambda>x. course_id x = course_id r) (deref h cs) = Some c
               \<and> r = with_source Content c))
   \<and> (distinct (map course_id (deref h vs)) \<longrightarrow>
          (\<forall>v \<in> set (deref h vs). with_source Vector v \<in> set (deref h' out)))"
proof
  let ?k = "\<lambda>a. course_id (h a)"
  assume run: "combine_recommendations h vs cs = (h', out)"
  have ids: "course_id ` set (deref h vs) = ?k ` set vs"
    by (simp add: deref_def image_image)
  have "map course_id (deref h' out) = map (\<lambda>a. course_id (h' a)) out"
    by (simp add: deref_def)
  also have "\<dots> = map ?k out" by (simp add: fusion_facts(9) [OF run])
  finally have c1: "distinct (map course_id (deref h' out))"
    using fusion_distinct [OF run] by simp
  have c2: "\<forall>v \<in> set (deref h vs). \<exists>r \<in> set (deref h' out).
          course_id r = course_id v \<and> source r = Some Vector"
  proof
    fix v assume "v \<in> set (deref h vs)"
    then obtain a where a: "a \<in> set vs" and v: "v = h a" by (auto simp: deref_def)
    from fusion_vector_appears [OF run a] obtain b where "b \<in> set out"
      "course_id (h' b) = course_id (h a)" "source (h' b) = Some Vector" by blast
    then have "h' b \<in> set (deref h' out) \<and> course_id (h' b) = course_id v
                 \<and> source (h' b) = Some Vector"
      by (simp add: deref_def v)
    then show "\<exists>r \<in> set (deref h' out). course_id r = course_id v \<and> source r = Some Vector"
      by blast
  qed
  have c3: "\<forall>c \<in> set (deref h cs).
          (\<exists>r \<in> set (deref h' out). course_id r = course_id c \<and> source r = Some Content)
            \<longleftrightarrow> course_id c \<notin> course_id ` set (deref h vs)"
  proof
    fix c assume "c \<in> set (deref h cs)"
    then obtain a where a: "a \<in> set cs" and c: "c = h a" by (auto simp: deref_def)
    have "(\<exists>r \<in> set (deref h' out). course_id r = course_id c \<and> source r = Some Content)
           \<longleftrightarrow> (\<exists>b \<in> set out. course_id (h' b) = course_id (h a)
                  \<and> source (h' b) = Some Content)"
      by (simp add: deref_def c)
    then show "(\<exists>r \<in> set (deref h' out). course_id r = course_id c \<and> source r = Some Content)
            \<longleftrightarrow> course_id c \<notin> course_id ` set (deref h vs)"
      using fusion_content_appears [OF run a] by (simp only: ids c)
  qed
  have c4: "\<forall>r \<in> set (deref h' out). course_id r \<in> course_id ` set (deref h vs) \<longrightarrow>
          (\<exists>v. find (\<lambda>x. course_id x = course_id r) (rev (deref h vs)) = Some v
               \<and> r = with_source Vector v \<and> vector_similarity r = vector_similarity v)"
  proof (intro ballI impI)
    fix r assume "r \<in> set (deref h' out)" and i: "course_id r \<in> course_id ` set (deref h vs)"
    then obtain b where b: "b \<in> set out" and r: "r = h' b" by (auto simp: deref_def)
    from i have "course_id (h' b) \<in> ?k ` set vs" unfolding ids r .
    note vr = fusion_vector_record [OF run b this]
    have f: "find (\<lambda>x. course_id (h x) = course_id (h' b)) (rev vs) = Some b"
      using vr by (rule conjunct1)
    have hb: "h' b = with_source Vector (h b)" using vr by (rule conjunct2)
    have "find (\<lambda>x. course_id x = course_id r) (rev (deref h vs)) = Some (h b)"
      by (simp add: deref_def rev_map find_map_option f r)
    moreover have "r = with_source Vector (h b)" by (simp add: r hb)
    moreover have "vector_similarity r = vector_similarity (h b)"
      by (simp add: r hb vector_similarity_with_source)
    ultimately show "\<exists>v. find (\<lambda>x. course_id x = course_id r) (rev (deref h vs)) = Some v
               \<and> r = with_source Vector v \<and> vector_similarity r = vector_similarity v"
      by blast
  qed
  have c5: "\<forall>r \<in> set (deref h' out). course_id r \<notin> course_id ` set (deref h vs) \<longrightarrow>
          (\<exists>c. find (\<lambda>x. course_id x = course_id r) (deref h cs) = Some c
               \<and> r = with_source Content c)"
  proof (intro ballI impI)
    fix r assume "r \<in> set (deref h' out)" and i: "course_id r \<notin> course_id ` set (deref h vs)"
    then obtain b where b: "b \<in> set out" and r: "r = h' b" by (auto simp: deref_def)
    from i have "course_id (h' b) \<notin> ?k ` set vs" unfolding ids r .
    note cr = fusion_content_record [OF run b this]
    have f: "find (\<lambda>x. course_id (h x) = course_id (h' b)) cs = Some b"
      using cr by (rule conjunct1)
    have hb: "h' b = with_source Content (h b)" using cr by (rule conjunct2)
    have "find (\<lambda>x. course_id x = course_id r) (deref h cs) = Some (h b)"
      by (simp add: deref_def find_map_option f r)
    moreover have "r = with_source Content (h b)" by (simp add: r hb)
    ultimately show "\<exists>c. find (\<lambda>x. course_id x = course_id r) (deref h cs) = Some c
               \<and> r = with_source Content c"
      by blast
  qed
  have c6: "distinct (map course_id (deref h vs)) \<longrightarrow>
          (\<forall>v \<in> set (deref h vs). with_source Vector v \<in> set (deref h' out))"
  proof (intro ballI impI)
    fix v assume "distinct (map course_id (deref h vs))" and "v \<in> set (deref h vs)"
    then have d: "distinct (map ?k vs)" and "\<exists>a \<in> set vs. v = h a"
      by (auto simp: deref_def comp_def)
    then obtain a where a: "a \<in> set vs" and v: "v = h a" by blast
    from fusion_distinct_vector [OF run d a]
    have "a \<in> set out" and "h' a = with_source Vector (h a)" by simp_all
    then have "with_source Vector (h a) \<in> h' ` set out" by force
    then show "with_source Vector v \<in> set (deref h' out)" by (simp add: deref_def v)
  qed
  from c1 c2 c3 c4 c5 c6
  show "distinct (map course_id (deref h' out))
   \<and> (\<forall>v \<in> set (deref h vs). \<exists>r \<in> set (deref h' out).
          course_id r = course_id v \<and> source r = Some Vector)
   \<and> (\<forall>c \<in> set (deref h cs).
          (\<exists>r \<in> set (deref h' out). course_id r = course_id c \<and> source r = Some Content)
            \<longleftrightarrow> course_id c \<notin> course_id ` set (deref h vs))
   \<and> (\<forall>r \<in> set (deref h' out). course_id r \<in> course_id ` set (deref h vs) \<longrightarrow>
          (\<exists>v. find (\<lambda>x. course_id x = course_id r) (rev (deref h vs)) = Some v
               \<and> r = with_source Vector v \<and> vector_similarity r = vector_similarity v))
   \<and> (\<forall>r \<in> set (deref h' out). course_id r \<notin> course_id ` set (deref h vs) \<longrightarrow>
          (\<exists>c. find (\<lambda>x. course_id x = course_id r) (deref h cs) = Some c
               \<and> r = with_source Content c))
   \<and> (distinct (map course_id (deref h vs)) \<longrightarrow>
          (\<forall>v \<in> set (deref h vs). with_source Vector v \<in> set (deref h' out)))"
    by (intro conjI)
qed

theorem combine_recommendations_fusion_witness:
  "snd (combine_recommendations demo_heap [0, 1] [2, 3]) = [0, 1, 3]
   \<and> deref (fst (combine_recommendations demo_heap [0, 1] [2, 3])) [0, 1, 3]
       = [with_source Vector demo_va, with_source Vector demo_vb, with_source Content demo_cc]
   \<and> distinct (map course_id
         (deref (fst (combine_recommendations demo_heap [0, 1] [2, 3]))
                (snd (combine_recommendations demo_heap [0, 1] [2, 3]))))
   \<and> map vector_similarity (deref (fst (combine_recommendations demo_heap [0, 1] [2, 3])) [0, 1, 3])
       = [Some 0.9, Some 0.7, Some 0]"
proof -
  have run: "combine_recommendations demo_heap [0, 1] [2, 3]
     = (fst (combine_recommendations demo_heap [0, 1] [2, 3]),
        snd (combine_recommendations demo_heap [0, 1] [2, 3]))"
    by simp
  have e1: "snd (combine_recommendations demo_heap [0, 1] [2, 3]) = [0, 1, 3]"
    by code_simp
  have e2: "deref (fst (combine_recommendations demo_heap [0, 1] [2, 3])) [0, 1, 3]
       = [with_source Vector demo_va, with_source Vector demo_vb, with_source Content demo_cc]"
    by code_simp
  have e3: "map vector_similarity
         (deref (fst (combine_recommendations demo_heap [0, 1] [2, 3])) [0, 1, 3])
       = [Some 0.9, Some 0.7, Some 0]"
    by code_simp
  note main = mp [OF combine_recommendations_fusion run]
  show ?thesis by (intro conjI e1 e2 e3 main [THEN conjunct1])
qed


subsection \<open>Fusing again\<close>

lemma tag_refs_nil: "tag_refs p [] h = h"
  by (simp add: tag_refs_def)

lemma deref_tag_refs: "deref (tag_refs p as h) as = map (with_source p) (deref h as)"
  by (simp add: deref_def tag_refs_def)

lemma upd_all_keys_snd: "map k (map snd (upd_all k [] as)) = map fst (upd_all k [] as)"
proof -
  have "\<forall>e \<in> set (upd_all k [] as). (k \<circ> snd) e = fst e"
  proof
    fix e assume "e \<in> set (upd_all k [] as)"
    then have "(fst e, snd e) \<in> set (upd_all k [] as)" by simp
    from upd_all_entryD [OF this] show "(k \<circ> snd) e = fst e" by simp
  qed
  then have "map (k \<circ> snd) (upd_all k [] as) = map fst (upd_all k [] as)"
    by (simp only: map_eq_conv)
  then show ?thesis by (simp only: map_map)
qed

lemma new_entries_keys_snd:
  "map k (map snd (new_entries k seen cs)) = map fst (new_entries k seen cs)"
proof -
  have "\<forall>e \<in> set (new_entries k seen cs). (k \<circ> snd) e = fst e"
  proof
    fix e assume "e \<in> set (new_entries k seen cs)"
    then have "(fst e, snd e) \<in> set (new_entries k seen cs)" by simp
    from new_entries_entryD [OF this] show "(k \<circ> snd) e = fst e" by simp
  qed
  then have "map (k \<circ> snd) (new_entries k seen cs) = map fst (new_entries k seen cs)"
    by (simp only: map_eq_conv)
  then show ?thesis by (simp only: map_map)
qed

lemma new_entries_again:
  "map (\<lambda>c. (k c, c)) (map snd (new_entries k seen cs)) = new_entries k seen cs"
proof -
  have "\<forall>e \<in> set (new_entries k seen cs). (k (snd e), snd e) = e"
  proof
    fix e assume "e \<in> set (new_entries k seen cs)"
    then have "(fst e, snd e) \<in> set (new_entries k seen cs)" by simp
    from new_entries_entryD [OF this] have "k (snd e) = fst e" by simp
    then show "(k (snd e), snd e) = e" by simp
  qed
  then have "map (\<lambda>e. (k (snd e), snd e)) (new_entries k seen cs) = new_entries k seen cs"
    by (simp add: map_idI)
  then show ?thesis by (simp add: comp_def)
qed

lemma new_entries_skip:
  "k ` set xs \<subseteq> set seen \<Longrightarrow> new_entries k seen (xs @ ys) = new_entries k seen ys"
  by (induction xs) auto

text \<open>Fusing a list of distinct identifiers, as the vector list, with a list that brings
  no new identifier: the same references come back, all tagged \<open>vector\<close>.\<close>

lemma fusion_nothing_new:
  assumes d: "distinct (map (\<lambda>a. course_id (h a)) R)"
    and s: "(\<lambda>a. course_id (h a)) ` set A \<subseteq> (\<lambda>a. course_id (h a)) ` set R"
  shows "combine_recommendations h R A = (tag_refs Vector R h, R)"
proof -
  let ?k = "\<lambda>a. course_id (h a)"
  have u: "upd_all ?k [] R = map (\<lambda>a. (?k a, a)) R"
    using upd_all_fresh [of ?k R "[]"] d by simp
  have keys: "map fst (map (\<lambda>a. (?k a, a)) R) = map ?k R" by (simp add: comp_def)
  have n: "new_entries ?k (map ?k R) A = []"
    by (rule new_entries_none) (use s in simp)
  have o: "map snd (map (\<lambda>a. (?k a, a)) R) = R" by (simp add: comp_def)
  show ?thesis
    by (simp only: combine_recommendations_eq Let_def u keys n o tag_refs_nil
          list.map append_Nil2)
qed

lemma fusion_ids:
  assumes run: "combine_recommendations h vs cs = (h', out)"
  shows "(\<lambda>a. course_id (h a)) ` set out
           = (\<lambda>a. course_id (h a)) ` set vs \<union> (\<lambda>a. course_id (h a)) ` set cs"
proof -
  let ?k = "\<lambda>a. course_id (h a)"
  let ?d = "upd_all ?k [] vs"
  let ?news = "new_entries ?k (map fst ?d) cs"
  note f = fusion_facts [OF run]
  have "map ?k out = map ?k (map snd ?d) @ map ?k (map snd ?news)"
    unfolding f(1) by (rule map_append)
  then have "map ?k out = map fst ?d @ map fst ?news"
    unfolding upd_all_keys_snd new_entries_keys_snd .
  then have "set (map ?k out) = set (map fst ?d) \<union> set (map fst ?news)"
    by (simp only: set_append)
  then have "set (map ?k out) = ?k ` set vs \<union> (?k ` set cs - ?k ` set vs)"
    unfolding f(4) f(6) .
  then show ?thesis by auto
qed

lemma fusion_heap_fixed:
  assumes run: "combine_recommendations h vs cs = (h', out)"
  shows "tag_refs Vector vs h' = h'"
    and "tag_refs Content
           (map snd (new_entries (\<lambda>a. course_id (h a))
              (map fst (upd_all (\<lambda>a. course_id (h a)) [] vs)) cs)) h' = h'"
proof -
  let ?k = "\<lambda>a. course_id (h a)"
  let ?d = "upd_all ?k [] vs"
  let ?news = "new_entries ?k (map fst ?d) cs"
  note f = fusion_facts [OF run]
  show "tag_refs Vector vs h' = h'"
  proof
    fix a
    show "tag_refs Vector vs h' a = h' a"
    proof (cases "a \<in> set vs")
      case True
      from fusion_heap(1) [OF run True] have "h' a = with_source Vector (h a)" .
      then have "with_source Vector (h' a) = h' a" by (simp add: with_source_idem)
      with True show ?thesis by (simp add: tag_refs_def)
    next
      case False
      then show ?thesis by (simp add: tag_refs_def)
    qed
  qed
  show "tag_refs Content (map snd ?news) h' = h'"
  proof
    fix a
    show "tag_refs Content (map snd ?news) h' a = h' a"
    proof (cases "a \<in> set (map snd ?news)")
      case True
      then have o: "a \<in> set out" by (simp add: f(1))
      from True obtain i where "(i, a) \<in> set ?news" by force
      from new_entries_entryD [OF this] have "?k a \<notin> set (map fst ?d)" by simp
      then have "?k a \<notin> ?k ` set vs" unfolding f(4) .
      then have "a \<notin> set vs" by blast
      from fusion_heap(2) [OF run o this] have "h' a = with_source Content (h a)" .
      then have "with_source Content (h' a) = h' a" by (simp add: with_source_idem)
      with True show ?thesis by (simp add: tag_refs_def)
    next
      case False
      then show ?thesis by (simp add: tag_refs_def)
    qed
  qed
qed

lemma fusion_again_as_content:
  assumes run: "combine_recommendations h A B = (h1, R)"
  shows "combine_recommendations h1 A R = (h1, R)"
proof -
  let ?k = "\<lambda>a. course_id (h a)"
  let ?d = "upd_all ?k [] A"
  let ?news = "new_entries ?k (map fst ?d) B"
  note f = fusion_facts [OF run]
  have k1: "(\<lambda>a. course_id (h1 a)) = ?k" using f(9) by (simp add: fun_eq_iff)
  have "?k ` set (map snd ?d) = set (map ?k (map snd ?d))" by (rule set_map [symmetric])
  then have sub: "?k ` set (map snd ?d) \<subseteq> set (map fst ?d)"
    unfolding upd_all_keys_snd by (rule equalityD1)
  have dn: "distinct (map ?k (map snd ?news))"
    unfolding new_entries_keys_snd using f(5) .
  have e: "?k ` set (map snd ?news) = set (map ?k (map snd ?news))"
    by (rule set_map [symmetric])
  have disj: "?k ` set (map snd ?news) \<inter> set (map fst ?d) = {}"
    unfolding e new_entries_keys_snd f(4) f(6) by blast
  have "new_entries ?k (map fst ?d) R = new_entries ?k (map fst ?d) (map snd ?news)"
    unfolding f(1) using sub by (rule new_entries_skip)
  also have "\<dots> = map (\<lambda>c. (?k c, c)) (map snd ?news)"
    using dn disj by (rule new_entries_fresh)
  also have "\<dots> = ?news" by (rule new_entries_again)
  finally have n: "new_entries ?k (map fst ?d) R = ?news" .
  have "combine_recommendations h1 A R
          = (tag_refs Content (map snd ?news) (tag_refs Vector A h1), map snd (?d @ ?news))"
    by (simp only: combine_recommendations_eq Let_def k1 n)
  also have "\<dots> = (h1, R)"
    by (simp only: fusion_heap_fixed [OF run] f(1) map_append)
  finally show ?thesis .
qed

lemma fusion_again_as_vector:
  assumes run: "combine_recommendations h A B = (h1, R)"
  shows "combine_recommendations h1 R A = (tag_refs Vector R h1, R)"
proof -
  let ?k = "\<lambda>a. course_id (h a)"
  note f = fusion_facts [OF run]
  have k1: "(\<lambda>a. course_id (h1 a)) = ?k" using f(9) by (simp add: fun_eq_iff)
  have d: "distinct (map (\<lambda>a. course_id (h1 a)) R)"
    unfolding k1 using run by (rule fusion_distinct)
  have s: "(\<lambda>a. course_id (h1 a)) ` set A \<subseteq> (\<lambda>a. course_id (h1 a)) ` set R"
    unfolding k1 fusion_ids [OF run] by blast
  from d s show ?thesis by (rule fusion_nothing_new)
qed

lemma with_source_fixed: "source c = Some p \<Longrightarrow> with_source p c = c"
  by (simp add: with_source_def)

text \<open>
  Claim C9, as the code has it.  Fusing a list \<open>A\<close> of distinct identifiers with itself
  returns the references of \<open>A\<close> in order, and afterwards every candidate of \<open>A\<close> is
  tagged \<open>vector\<close>: the candidates are those of \<open>A\<close> with their \<open>source\<close> overwritten, no
  identifier twice, and they are unchanged when \<open>A\<close> was tagged \<open>vector\<close> throughout.
  For all lists \<open>A\<close> and \<open>B\<close> with \<open>R\<close> the result of fusing them: fusing \<open>A\<close> with \<open>R\<close> as
  the content list returns \<open>R\<close> and changes nothing; fusing \<open>R\<close> as the vector list with
  \<open>A\<close> returns the references of \<open>R\<close> in order and tags every candidate of \<open>R\<close> as
  \<open>vector\<close>, also those that the first fusion had tagged \<open>content\<close>.
\<close>

theorem combine_recommendations_again:
  "(distinct (map course_id (deref h A)) \<longrightarrow>
      combine_recommendations h A A = (tag_refs Vector A h, A)
      \<and> deref (tag_refs Vector A h) A = map (with_source Vector) (deref h A)
      \<and> distinct (map course_id (deref (tag_refs Vector A h) A))
      \<and> ((\<forall>c \<in> set (deref h A). source c = Some Vector)
            \<longrightarrow> deref (tag_refs Vector A h) A = deref h A))
   \<and> (combine_recommendations h A B = (h1, R) \<longrightarrow>
      combine_recommendations h1 A R = (h1, R)
      \<and> combine_recommendations h1 R A = (tag_refs Vector R h1, R)
      \<and> deref (tag_refs Vector R h1) R = map (with_source Vector) (deref h1 R))"
proof (intro conjI impI)
  assume d: "distinct (map course_id (deref h A))"
  then have d': "distinct (map (\<lambda>a. course_id (h a)) A)" by (simp add: deref_def comp_def)
  then show "combine_recommendations h A A = (tag_refs Vector A h, A)"
    by (rule fusion_nothing_new) simp
  show "deref (tag_refs Vector A h) A = map (with_source Vector) (deref h A)"
    by (rule deref_tag_refs)
  have "map course_id (deref (tag_refs Vector A h) A) = map (\<lambda>a. course_id (h a)) A"
    by (simp add: deref_def course_id_tag_refs)
  with d' show "distinct (map course_id (deref (tag_refs Vector A h) A))" by simp
next
  assume "\<forall>c \<in> set (deref h A). source c = Some Vector"
  then have "map (with_source Vector) (deref h A) = deref h A"
    by (simp add: map_idI with_source_fixed)
  then show "deref (tag_refs Vector A h) A = deref h A" by (simp only: deref_tag_refs)
next
  assume run: "combine_recommendations h A B = (h1, R)"
  show "combine_recommendations h1 A R = (h1, R)" using run by (rule fusion_again_as_content)
  show "combine_recommendations h1 R A = (tag_refs Vector R h1, R)"
    using run by (rule fusion_again_as_vector)
  show "deref (tag_refs Vector R h1) R = map (with_source Vector) (deref h1 R)"
    by (rule deref_tag_refs)
qed

text \<open>Fusing \<open>A = [a]\<close> with \<open>B = [c]\<close> tags \<open>c\<close> as \<open>content\<close>; fusing the result with \<open>A\<close>
  again returns the same two references and tags \<open>c\<close> as \<open>vector\<close>.  The same with newly
  built lists throughout: the second fusion does not return what the first returned.\<close>

theorem combine_recommendations_again_retags:
  "snd (combine_recommendations demo_heap [0] [3]) = [0, 3]
   \<and> deref (fst (combine_recommendations demo_heap [0] [3])) [0, 3]
       = [with_source Vector demo_va, with_source Content demo_cc]
   \<and> snd (combine_recommendations (fst (combine_recommendations demo_heap [0] [3])) [0, 3] [0])
       = [0, 3]
   \<and> deref (fst (combine_recommendations (fst (combine_recommendations demo_heap [0] [3]))
                 [0, 3] [0])) [0, 3]
       = [with_source Vector demo_va, with_source Vector demo_cc]
   \<and> with_source Vector demo_cc \<noteq> with_source Content demo_cc
   \<and> combine_fresh (combine_fresh [demo_va] [demo_cc]) [demo_va]
       \<noteq> combine_fresh [demo_va] [demo_cc]"
proof -
  have e1: "snd (combine_recommendations demo_heap [0] [3]) = [0, 3]" by code_simp
  have e2: "deref (fst (combine_recommendations demo_heap [0] [3])) [0, 3]
       = [with_source Vector demo_va, with_source Content demo_cc]" by code_simp
  have e3: "snd (combine_recommendations (fst (combine_recommendations demo_heap [0] [3]))
                  [0, 3] [0]) = [0, 3]" by code_simp
  have e4: "deref (fst (combine_recommendations (fst (combine_recommendations demo_heap [0] [3]))
                 [0, 3] [0])) [0, 3]
       = [with_source Vector demo_va, with_source Vector demo_cc]" by code_simp
  have e5: "with_source Vector demo_cc \<noteq> with_source Content demo_cc" by code_simp
  have e6: "combine_fresh (combine_fresh [demo_va] [demo_cc]) [demo_va]
       \<noteq> combine_fresh [demo_va] [demo_cc]" by code_simp
  show ?thesis by (intro conjI e1 e2 e3 e4 e5 e6)
qed

theorem combine_recommendations_again_witness:
  "combine_recommendations (fst (combine_recommendations demo_heap [0, 1] [2, 3])) [0, 1]
       (snd (combine_recommendations demo_heap [0, 1] [2, 3]))
     = combine_recommendations demo_heap [0, 1] [2, 3]
   \<and> snd (combine_recommendations demo_heap [0, 1] [0, 1]) = [0, 1]
   \<and> deref (fst (combine_recommendations demo_heap [0, 1] [0, 1])) [0, 1]
       = map (with_source Vector) (deref demo_heap [0, 1])"
proof -
  have run: "combine_recommendations demo_heap [0, 1] [2, 3]
     = (fst (combine_recommendations demo_heap [0, 1] [2, 3]),
        snd (combine_recommendations demo_heap [0, 1] [2, 3]))"
    by simp
  have d: "distinct (map course_id (deref demo_heap [0, 1]))" by code_simp
  note second = mp [OF combine_recommendations_again
      [of demo_heap "[0, 1]" "[2, 3]" "fst (combine_recommendations demo_heap [0, 1] [2, 3])"
          "snd (combine_recommendations demo_heap [0, 1] [2, 3])", THEN conjunct2] run]
  note first = mp [OF combine_recommendations_again
      [of demo_heap "[0, 1]" "[2, 3]" "fst (combine_recommendations demo_heap [0, 1] [2, 3])"
          "snd (combine_recommendations demo_heap [0, 1] [2, 3])", THEN conjunct1] d]
  have c1: "combine_recommendations (fst (combine_recommendations demo_heap [0, 1] [2, 3])) [0, 1]
       (snd (combine_recommendations demo_heap [0, 1] [2, 3]))
     = combine_recommendations demo_heap [0, 1] [2, 3]"
    using second [THEN conjunct1] by simp
  have c2: "snd (combine_recommendations demo_heap [0, 1] [0, 1]) = [0, 1]"
    using first [THEN conjunct1] by simp
  have c3: "deref (fst (combine_recommendations demo_heap [0, 1] [0, 1])) [0, 1]
       = map (with_source Vector) (deref demo_heap [0, 1])"
    using first [THEN conjunct1] first [THEN conjunct2, THEN conjunct1] by simp
  show ?thesis by (intro conjI c1 c2 c3)
qed


section \<open>Properties of the fallback and of the request\<close>

subsection \<open>The fallback list\<close>

















subsection \<open>The result cache\<close>

lemma request_hit:
  assumes "\<not> force" and "cache st (cache_key (builtin_hash env) u q n) = Some e"
    and "t1 - timestamp e < cache_ttl"
  shows "get_personalized_recommendations env t1 t2 st u q ctx n force = (data e, st)"
  using assms by (simp add: get_personalized_recommendations_def Let_def)

lemma request_miss:
  assumes "force \<or> cache st (cache_key (builtin_hash env) u q n) = None
           \<or> (\<exists>e. cache st (cache_key (builtin_hash env) u q n) = Some e
                   \<and> \<not> t1 - timestamp e < cache_ttl)"
  shows "get_personalized_recommendations env t1 t2 st u q ctx n force =
     (case compute_recommendations env u q ctx n of
        Inr recs \<Rightarrow>
          (recs,
           \<lparr>cache = (cache st)(cache_key (builtin_hash env) u q n \<mapsto>
                       \<lparr>data = recs, timestamp = t2\<rparr>),
            compute_runs = Suc (compute_runs st)\<rparr>)
      | Inl err \<Rightarrow>
          (get_fallback_recommendations (catalog env) n,
           \<lparr>cache = (if force then cache st
                     else (cache st)(cache_key (builtin_hash env) u q n := None)),
            compute_runs = Suc (compute_runs st)\<rparr>))"
proof -
  let ?K = "cache_key (builtin_hash env) u q n"
  have old: "(cache st)(?K := None) = cache st" if "cache st ?K = None"
    using that by (simp add: fun_upd_idem)
  show ?thesis
    using assms
    by (cases "compute_recommendations env u q ctx n")
       (auto simp: get_personalized_recommendations_def Let_def old)
qed

text \<open>
  Claim C6.  With \<open>force_refresh\<close> false and a stored entry of the key younger than the
  time to live, the request returns the stored list and leaves the engine as it was: the
  compute path is not run.  With \<open>force_refresh\<close> true, or no entry, or an entry that has
  expired, the compute path runs once; when it returns a list, the request returns that
  list and the cache holds it under the key with the time of the second clock reading,
  the other keys keeping their entries.  (When the compute path raises, the request
  returns the fallback list and stores nothing.)
\<close>

theorem get_personalized_recommendations_cache:
  "(\<not> force \<and> cache st (cache_key (builtin_hash env) u q n) = Some e
      \<and> t1 - timestamp e < cache_ttl \<longrightarrow>
        get_personalized_recommendations env t1 t2 st u q ctx n force = (data e, st))
   \<and> (force \<or> cache st (cache_key (builtin_hash env) u q n) = None
        \<or> (\<exists>e. cache st (cache_key (builtin_hash env) u q n) = Some e
                \<and> \<not> t1 - timestamp e < cache_ttl) \<longrightarrow>
        compute_runs (snd (get_personalized_recommendations env t1 t2 st u q ctx n force))
          = Suc (compute_runs st)
        \<and> (\<forall>recs. compute_recommendations env u q ctx n = Inr recs \<longrightarrow>
              fst (get_personalized_recommendations env t1 t2 st u q ctx n force) = recs
              \<and> cache (snd (get_personalized_recommendations env t1 t2 st u q ctx n force))
                  = (cache st)(cache_key (builtin_hash env) u q n \<mapsto>
                       \<lparr>data = recs, timestamp = t2\<rparr>))
        \<and> (\<forall>err. compute_recommendations env u q ctx n = Inl err \<longrightarrow>
              fst (get_personalized_recommendations env t1 t2 st u q ctx n force)
                = get_fallback_recommendations (catalog env) n
              \<and> cache (snd (get_personalized_recommendations env t1 t2 st u q ctx n force))
                    (cache_key (builtin_hash env) u q n)
                  = (if force then cache st (cache_key (builtin_hash env) u q n) else None)))"
proof (intro conjI impI)
  assume "\<not> force \<and> cache st (cache_key (builtin_hash env) u q n) = Some e
      \<and> t1 - timestamp e < cache_ttl"
  then show "get_personalized_recommendations env t1 t2 st u q ctx n force = (data e, st)"
    by (simp add: request_hit)
next
  assume m: "force \<or> cache st (cache_key (builtin_hash env) u q n) = None
        \<or> (\<exists>e. cache st (cache_key (builtin_hash env) u q n) = Some e
                \<and> \<not> t1 - timestamp e < cache_ttl)"
  note r = request_miss [OF m, of t2 ctx]
  show "compute_runs (snd (get_personalized_recommendations env t1 t2 st u q ctx n force))
          = Suc (compute_runs st)"
    by (simp add: r split: sum.splits)
  show "\<forall>recs. compute_recommendations env u q ctx n = Inr recs \<longrightarrow>
              fst (get_personalized_recommendations env t1 t2 st u q ctx n force) = recs
              \<and> cache (snd (get_personalized_recommendations env t1 t2 st u q ctx n force))
                  = (cache st)(cache_key (builtin_hash env) u q n \<mapsto>
                       \<lparr>data = recs, timestamp = t2\<rparr>)"
    by (simp add: r)
  show "\<forall>err. compute_recommendations env u q ctx n = Inl err \<longrightarrow>
              fst (get_personalized_recommendations env t1 t2 st u q ctx n force)
                = get_fallback_recommendations (catalog env) n
              \<and> cache (snd (get_personalized_recommendations env t1 t2 st u q ctx n force))
                    (cache_key (builtin_hash env) u q n)
                  = (if force then cache st (cache_key (builtin_hash env) u q n) else None)"
    by (simp add: r)
qed

theorem get_personalized_recommendations_cache_witness:
  "(\<exists>recs. compute_recommendations demo_env 1 None None 10 = Inr recs
      \<and> fst (get_personalized_recommendations demo_env 1000 1001 demo_engine 1 None None 10 False)
          = recs
      \<and> get_personalized_recommendations demo_env 1100 1101
            (snd (get_personalized_recommendations demo_env 1000 1001 demo_engine 1 None None 10
                    False)) 1 None None 10 False
          = (recs, snd (get_personalized_recommendations demo_env 1000 1001 demo_engine 1 None
                          None 10 False)))
   \<and> compute_runs (snd (get_personalized_recommendations demo_env 1000 1001 demo_engine 1 None
                           None 10 False)) = 1
   \<and> compute_runs (snd (get_personalized_recommendations demo_env 1100 1101
            (snd (get_personalized_recommendations demo_env 1000 1001 demo_engine 1 None None 10
                    False)) 1 None None 10 True)) = 2
   \<and> compute_runs (snd (get_personalized_recommendations demo_env 1400 1401
            (snd (get_personalized_recommendations demo_env 1000 1001 demo_engine 1 None None 10
                    False)) 1 None None 10 False)) = 2
   \<and> map r_id (fst (get_personalized_recommendations demo_env 1000 1001 demo_engine 1 None None
                       10 False)) = [''a'', ''b'']"
proof -
  let ?K = "cache_key (builtin_hash demo_env) 1 None 10"
  let ?G1 = "get_personalized_recommendations demo_env 1000 1001 demo_engine 1 None None 10 False"
  have "case compute_recommendations demo_env 1 None None 10 of Inl e \<Rightarrow> False | Inr r \<Rightarrow> True"
    by code_simp
  then obtain recs where c: "compute_recommendations demo_env 1 None None 10 = Inr recs"
    by (cases "compute_recommendations demo_env 1 None None 10") simp_all
  have none: "cache demo_engine ?K = None" by (simp add: demo_engine_def)
  have runs0: "compute_runs demo_engine = 0" by (simp add: demo_engine_def)
  note first = get_personalized_recommendations_cache
      [of False demo_engine demo_env 1 None 10 _ 1000 1001 None, THEN conjunct2, THEN mp,
       OF disjI2, OF disjI1, OF none]
  have r1: "compute_runs (snd ?G1) = 1" using first [THEN conjunct1] runs0 by simp
  from first [THEN conjunct2, THEN conjunct1, THEN spec, THEN mp, OF c]
  have f1: "fst ?G1 = recs"
    and c1: "cache (snd ?G1) = (cache demo_engine)(?K \<mapsto> \<lparr>data = recs, timestamp = 1001\<rparr>)"
    by simp_all
  have stored: "cache (snd ?G1) ?K = Some \<lparr>data = recs, timestamp = 1001\<rparr>"
    by (simp add: c1)
  have fresh: "1100 - timestamp \<lparr>data = recs, timestamp = 1001\<rparr> < cache_ttl"
    by (simp add: cache_ttl_def)
  have stale: "\<not> 1400 - timestamp \<lparr>data = recs, timestamp = 1001\<rparr> < cache_ttl"
    by (simp add: cache_ttl_def)
  from get_personalized_recommendations_cache
      [of False "snd ?G1" demo_env 1 None 10 "\<lparr>data = recs, timestamp = 1001\<rparr>" 1100 1101 None,
       THEN conjunct1, THEN mp, OF conjI, OF _ conjI, OF _ stored fresh]
  have hit: "get_personalized_recommendations demo_env 1100 1101 (snd ?G1) 1 None None 10 False
               = (recs, snd ?G1)"
    by simp
  from get_personalized_recommendations_cache
      [of True "snd ?G1" demo_env 1 None 10 _ 1100 1101 None, THEN conjunct2, THEN mp,
       OF disjI1, THEN conjunct1]
  have forced: "compute_runs (snd (get_personalized_recommendations demo_env 1100 1101
                   (snd ?G1) 1 None None 10 True)) = 2"
    using r1 by simp
  have "\<exists>e. cache (snd ?G1) ?K = Some e \<and> \<not> 1400 - timestamp e < cache_ttl"
    using stored stale by blast
  from get_personalized_recommendations_cache
      [of False "snd ?G1" demo_env 1 None 10 _ 1400 1401 None, THEN conjunct2, THEN mp,
       OF disjI2, OF disjI2, OF this, THEN conjunct1]
  have expired: "compute_runs (snd (get_personalized_recommendations demo_env 1400 1401
                   (snd ?G1) 1 None None 10 False)) = 2"
    using r1 by simp
  have ids: "map r_id (fst ?G1) = [''a'', ''b'']" by code_simp
  from c f1 hit have "\<exists>recs. compute_recommendations demo_env 1 None None 10 = Inr recs
      \<and> fst ?G1 = recs
      \<and> get_personalized_recommendations demo_env 1100 1101 (snd ?G1) 1 None None 10 False
          = (recs, snd ?G1)"
    by (intro exI conjI)
  then show ?thesis using r1 forced expired ids by (intro conjI)
qed


subsection \<open>Exceptions and the fallback\<close>








section \<open>Properties of the negative keywords\<close>


lemma findall_after_absent:
  "\<not> contains s p \<Longrightarrow> findall_after cls p s = []"
proof (induction cls p s rule: findall_after.induct)
  case (1 cls prefix)
  show ?case by simp
next
  case (2 cls prefix c cs)
  from "2.prems" have n: "take (length prefix) (c # cs) \<noteq> prefix" and r: "\<not> contains cs prefix"
    by simp_all
  from n have "findall_after cls prefix (c # cs) = findall_after cls prefix cs" by simp
  also have "\<dots> = []" using "2.IH"(2) n r by blast
  finally show ?case .
qed



lemma lower_char_not_upper: "lower_char c \<notin> set ascii_upper"
proof (cases "map_of (zip ascii_upper ascii_lower) c")
  case None
  have "length ascii_upper = length ascii_lower" by (simp add: ascii_upper_def ascii_lower_def)
  then have "map fst (zip ascii_upper ascii_lower) = ascii_upper" by (rule map_fst_zip)
  then have "fst ` set (zip ascii_upper ascii_lower) = set ascii_upper"
    by (metis set_map)
  with None have "c \<notin> set ascii_upper" by (simp add: map_of_eq_None_iff)
  with None show ?thesis by (simp add: lower_char_def)
next
  case (Some d)
  then have "(c, d) \<in> set (zip ascii_upper ascii_lower)" by (rule map_of_SomeD)
  then have "d \<in> set ascii_lower" by (rule set_zip_rightD)
  moreover have "set ascii_lower \<inter> set ascii_upper = {}"
    by (simp add: ascii_upper_def ascii_lower_def)
  ultimately have "d \<notin> set ascii_upper" by blast
  with Some show ?thesis by (simp add: lower_char_def)
qed

lemma py_lower_no_upper: "c \<in> set (py_lower s) \<Longrightarrow> c \<notin> set ascii_upper"
  using lower_char_not_upper by (auto simp: py_lower_def)



text \<open>The last phrase pattern opens with an upper-case \<open>I\<close> and is matched against the
  lowercased query, so it never matches.\<close>

lemma contains_chars: "contains s p \<Longrightarrow> set p \<subseteq> set s"
proof (induction s)
  case Nil
  then show ?case by simp
next
  case (Cons c cs)
  from Cons.prems have "take (length p) (c # cs) = p \<or> contains cs p" by simp
  then show ?case
  proof
    assume "take (length p) (c # cs) = p"
    then have "set p = set (take (length p) (c # cs))" by simp
    then show ?thesis using set_take_subset [of "length p" "c # cs"] by simp
  next
    assume "contains cs p"
    then have "set p \<subseteq> set cs" by (rule Cons.IH)
    then show ?thesis by auto
  qed
qed

lemma last_pattern_never_matches:
  "findall_after cls (last negative_patterns) (py_lower q) = []"
proof (rule findall_after_absent, rule notI)
  assume "contains (py_lower q) (last negative_patterns)"
  then have "set (last negative_patterns) \<subseteq> set (py_lower q)" by (rule contains_chars)
  moreover have "CHR ''I'' \<in> set (last negative_patterns)" by (simp add: negative_patterns_def)
  ultimately have "CHR ''I'' \<in> set (py_lower q)" by blast
  then have "CHR ''I'' \<notin> set ascii_upper" by (rule py_lower_no_upper)
  then show False by (simp add: ascii_upper_def)
qed










end
